theory Spec2Isabelle
  imports Main "HOL-Library.Char_ord" "HOL-Library.List_Lexorder"
begin

section \<open>Strings\<close>

text \<open>
  JavaScript strings are sequences of UTF-16 code units; the model keeps the code units
  below 256 (Latin-1), one \<open>char\<close> each.  \<open>String.prototype.trim\<close> strips the white
  space and line terminators of ECMAScript, which in this range are the code units
  9 to 13, 32 and 160.
\<close>

definition isWhiteSpace :: "char \<Rightarrow> bool" where
  "isWhiteSpace c =
     (let n = (of_char c :: nat) in (9 \<le> n \<and> n \<le> 13) \<or> n = 32 \<or> n = 160)"

definition trim :: "string \<Rightarrow> string" where
  "trim s = rev (dropWhile isWhiteSpace (rev (dropWhile isWhiteSpace s)))"

text \<open>
  \<open>String.prototype.toLowerCase\<close> folds the Latin-1 capitals (A to Z and the accented
  capitals 192 to 222 without the multiplication sign 215).  SQLite's \<open>lower()\<close> and its
  \<open>NOCASE\<close> collation fold the 26 ASCII capitals only.
\<close>

definition toLowerCaseChar :: "char \<Rightarrow> char" where
  "toLowerCaseChar c =
     (let n = (of_char c :: nat)
      in if (65 \<le> n \<and> n \<le> 90) \<or> (192 \<le> n \<and> n \<le> 222 \<and> n \<noteq> 215)
         then char_of (n + 32) else c)"

definition toLowerCase :: "string \<Rightarrow> string" where
  "toLowerCase s = map toLowerCaseChar s"

definition sql_lower_char :: "char \<Rightarrow> char" where
  "sql_lower_char c =
     (let n = (of_char c :: nat) in if 65 \<le> n \<and> n \<le> 90 then char_of (n + 32) else c)"

definition sql_lower :: "string \<Rightarrow> string" where
  "sql_lower s = map sql_lower_char s"

text \<open>
  \<open>toUpperCase\<close> is used by the source only to compare the sort direction with
  \<open>DESC\<close>.  The model folds the small letters whose capital is again one Latin-1 code
  unit; the three others (223, 181, 255) have capitals outside the range or of two
  letters and are left alone, which never yields \<open>DESC\<close> either way.
\<close>

definition toUpperCaseChar :: "char \<Rightarrow> char" where
  "toUpperCaseChar c =
     (let n = (of_char c :: nat)
      in if (97 \<le> n \<and> n \<le> 122) \<or> (224 \<le> n \<and> n \<le> 254 \<and> n \<noteq> 247)
         then char_of (n - 32) else c)"

definition toUpperCase :: "string \<Rightarrow> string" where
  "toUpperCase s = map toUpperCaseChar s"

text \<open>\<open>s.split(sep)\<close> for a separator of one character; \<open>''''.split(sep)\<close> is \<open>['''']\<close>.\<close>

fun split :: "char \<Rightarrow> string \<Rightarrow> string list" where
  "split sep [] = [[]]"
| "split sep (c # cs) =
     (if c = sep then [] # split sep cs
      else (case split sep cs of [] \<Rightarrow> [[c]] | w # ws \<Rightarrow> (c # w) # ws))"

text \<open>\<open>s.includes(sub)\<close>.\<close>

fun startsWith :: "string \<Rightarrow> string \<Rightarrow> bool" where
  "startsWith s [] = True"
| "startsWith [] (c # cs) = False"
| "startsWith (d # ds) (c # cs) = (d = c \<and> startsWith ds cs)"

fun includes_str :: "string \<Rightarrow> string \<Rightarrow> bool" where
  "includes_str [] sub = (sub = [])"
| "includes_str (c # cs) sub = (startsWith (c # cs) sub \<or> includes_str cs sub)"

section \<open>Persisted state\<close>

text \<open>
  The four tables of \<open>database.js\<close>, of which the task service and the tag service use
  three.  A table is the list of its rows in rowid order.  Timestamps are ISO-8601 strings
  in UTC with millisecond precision, whose text order is the order of the instants they
  denote; the model keeps the number of milliseconds.  \<open>tasks_seq\<close> and \<open>tags_seq\<close> are
  the \<open>sqlite_sequence\<close> entries of the two \<open>AUTOINCREMENT\<close> keys.
\<close>

record tag =
  tag_id :: nat
  tag_name :: string

record task_row =
  task_id :: nat
  title :: string
  description :: string
  completed :: nat
  createdAt :: nat
  updatedAt :: nat
  userId :: nat

record db =
  tasks_tbl :: "task_row list"
  tags_tbl :: "tag list"
  task_tags_tbl :: "(nat \<times> nat) list"
  tasks_seq :: nat
  tags_seq :: nat

text \<open>
  What the services throw: an \<open>AppError\<close> with its message and HTTP status, an error
  of the SQLite driver with its message, and the error of the request validation with the
  keys that failed.
\<close>

datatype error = AppError string nat | SqliteError string | ValidationError "string list"

section \<open>Canonical tag store: \<open>findOrCreateTag\<close>\<close>

text \<open>\<open>SELECT id, name FROM tags WHERE lower(name) = lower(?)\<close>, first row.\<close>

definition selectTagByName :: "db \<Rightarrow> string \<Rightarrow> tag option" where
  "selectTagByName d n = find (\<lambda>t. sql_lower (tag_name t) = sql_lower n) (tags_tbl d)"

text \<open>
  \<open>INSERT INTO tags (name) VALUES (?)\<close>.  The column is \<open>UNIQUE COLLATE NOCASE\<close>: the
  insert fails when a row has the same name up to ASCII case.  The new key is one more
  than every key in the table and every key handed out before.
\<close>

definition constraintMessage :: string where
  "constraintMessage = ''SQLITE_CONSTRAINT: UNIQUE constraint failed: tags.name''"

definition lastID :: "nat list \<Rightarrow> nat \<Rightarrow> nat" where
  "lastID ids s = Suc (fold max ids s)"

definition insertTag :: "db \<Rightarrow> string \<Rightarrow> error + (nat \<times> db)" where
  "insertTag d n =
     (if list_ex (\<lambda>t. sql_lower (tag_name t) = sql_lower n) (tags_tbl d)
      then Inl (SqliteError constraintMessage)
      else (let i = lastID (map tag_id (tags_tbl d)) (tags_seq d)
            in Inr (i, d\<lparr>tags_tbl := tags_tbl d @ [\<lparr>tag_id = i, tag_name = n\<rparr>],
                         tags_seq := i\<rparr>)))"

fun errorMessage :: "error \<Rightarrow> string" where
  "errorMessage (AppError m c) = m"
| "errorMessage (SqliteError m) = m"
| "errorMessage (ValidationError ks) = ''Validation failed''"

text \<open>
  The result is \<open>null\<close> (here \<open>None\<close>) for a name that is empty once trimmed, and
  otherwise the tag.  The branch for a failed insert re-reads the row and returns it as
  stored.
\<close>

definition findOrCreateTag :: "db \<Rightarrow> string \<Rightarrow> error + (tag option \<times> db)" where
  "findOrCreateTag d name =
     (let originalTrimmedTagName = trim name
      in if originalTrimmedTagName = [] then Inr (None, d)
         else
           (let canonicalTagName = toLowerCase originalTrimmedTagName
            in case selectTagByName d canonicalTagName of
                 Some t \<Rightarrow> Inr (Some (t\<lparr>tag_name := canonicalTagName\<rparr>), d)
               | None \<Rightarrow>
                   (case insertTag d canonicalTagName of
                      Inr (i, d') \<Rightarrow> Inr (Some \<lparr>tag_id = i, tag_name = canonicalTagName\<rparr>, d')
                    | Inl e \<Rightarrow>
                        if includes_str (errorMessage e) ''SQLITE_CONSTRAINT''
                           \<and> includes_str (errorMessage e) ''tags.name''
                        then (case selectTagByName d canonicalTagName of
                                Some t \<Rightarrow> Inr (Some t, d)
                              | None \<Rightarrow> Inl e)
                        else Inl e)))"

section \<open>Task-tag associations\<close>

text \<open>
  \<open>getTagsForTask\<close>:
  \<open>SELECT t.id, t.name FROM tags t JOIN task_tags tt ON t.id = tt.tag_id WHERE tt.task_id = ?\<close>.
\<close>

definition getTagsForTask :: "db \<Rightarrow> nat \<Rightarrow> tag list" where
  "getTagsForTask d taskId =
     [t. t \<leftarrow> tags_tbl d, tt \<leftarrow> task_tags_tbl d, tag_id t = snd tt, fst tt = taskId]"

text \<open>
  \<open>Promise.all(tagNames.map(name => findOrCreateTag(name)))\<close>: the calls are taken in
  the order of the list, each on the state the one before left; the first error is the
  error of the whole.  (In the source the calls overlap; one that finds its insert refused
  because another wrote the name first takes the branch that re-reads the row, and ends
  with the tag the sequential run finds.)
\<close>

fun findOrCreateTags :: "db \<Rightarrow> string list \<Rightarrow> error + (tag option list \<times> db)" where
  "findOrCreateTags d [] = Inr ([], d)"
| "findOrCreateTags d (n # ns) =
     (case findOrCreateTag d n of
        Inl e \<Rightarrow> Inl e
      | Inr (t, d') \<Rightarrow>
          (case findOrCreateTags d' ns of
             Inl e \<Rightarrow> Inl e
           | Inr (ts, d'') \<Rightarrow> Inr (t # ts, d'')))"

text \<open>
  \<open>INSERT OR IGNORE INTO task_tags (task_id, tag_id) VALUES (?, ?)\<close>: a pair already
  in the table is left alone.
\<close>

definition insertOrIgnoreTaskTag :: "nat \<Rightarrow> nat \<Rightarrow> db \<Rightarrow> db" where
  "insertOrIgnoreTaskTag taskId tagId d =
     (if (taskId, tagId) \<in> set (task_tags_tbl d) then d
      else d\<lparr>task_tags_tbl := task_tags_tbl d @ [(taskId, tagId)]\<rparr>)"

text \<open>\<open>xs.filter(x => x !== null)\<close>.\<close>

definition nonNull :: "'a option list \<Rightarrow> 'a list" where
  "nonNull xs = concat (map (\<lambda>x. case x of None \<Rightarrow> [] | Some y \<Rightarrow> [y]) xs)"

definition addTagsToTask :: "db \<Rightarrow> nat \<Rightarrow> string list \<Rightarrow> nat \<Rightarrow> error + db" where
  "addTagsToTask d taskId tagNames uid =
     (if tagNames = [] then Inr d
      else
        (case find (\<lambda>t. task_id t = taskId \<and> userId t = uid) (tasks_tbl d) of
           None \<Rightarrow> Inr d
         | Some task \<Rightarrow>
             (case findOrCreateTags d tagNames of
                Inl e \<Rightarrow> Inl e
              | Inr (found, d') \<Rightarrow>
                  (let tags = nonNull found
                   in Inr (fold (\<lambda>t. insertOrIgnoreTaskTag taskId (tag_id t)) tags d')))))"

text \<open>\<open>clearTagsForTask\<close>: \<open>DELETE FROM task_tags WHERE task_id = ?\<close>.\<close>

definition clearTagsForTask :: "db \<Rightarrow> nat \<Rightarrow> db" where
  "clearTagsForTask d taskId =
     d\<lparr>task_tags_tbl := filter (\<lambda>tt. fst tt \<noteq> taskId) (task_tags_tbl d)\<rparr>"

section \<open>Reading a task\<close>

text \<open>
  The object a caller gets for a task: the columns of the row, \<open>completed\<close> as a boolean
  (\<open>transformTaskFromDb\<close>: true exactly for the stored value 1), and the list of its tags.
\<close>

record task =
  tid :: nat
  task_title :: string
  task_description :: string
  task_completed :: bool
  task_createdAt :: nat
  task_updatedAt :: nat
  task_userId :: nat
  tags :: "tag list"

definition transformTaskFromDb :: "task_row \<Rightarrow> tag list \<Rightarrow> task" where
  "transformTaskFromDb r ts =
     \<lparr>tid = task_id r, task_title = title r, task_description = description r,
      task_completed = (completed r = 1), task_createdAt = createdAt r,
      task_updatedAt = updatedAt r, task_userId = userId r, tags = ts\<rparr>"

definition getTaskById :: "db \<Rightarrow> nat \<Rightarrow> nat \<Rightarrow> task option" where
  "getTaskById d i uid =
     (case find (\<lambda>t. task_id t = i \<and> userId t = uid) (tasks_tbl d) of
        None \<Rightarrow> None
      | Some r \<Rightarrow> Some (transformTaskFromDb r (getTagsForTask d (task_id r))))"

section \<open>The list operation: \<open>getAllTasks\<close>\<close>

text \<open>
  The options object as the controller builds it from the query string.  \<open>completed\<close>
  is the string of the query; the service takes the string \<open>true\<close> for 1 and every other
  value for 0.
\<close>

record options =
  opt_page :: "int option"
  opt_limit :: "int option"
  opt_completed :: "string option"
  opt_sortBy :: "string option"
  opt_tags :: "string option"
  opt_tagMatchMode :: "string option"

record task_list =
  tasks :: "task list"
  total :: int
  page :: int
  limit :: int
  totalPages :: int

text \<open>\<open>options.tagMatchMode || 'all'\<close>: absent and the empty string give \<open>all\<close>.\<close>

definition tagMatchMode :: "options \<Rightarrow> string" where
  "tagMatchMode opts =
     (case opt_tagMatchMode opts of None \<Rightarrow> ''all'' | Some m \<Rightarrow> if m = [] then ''all'' else m)"

definition tagNamesToFilter :: "options \<Rightarrow> string list" where
  "tagNamesToFilter opts =
     (case opt_tags opts of
        None \<Rightarrow> []
      | Some s \<Rightarrow>
          if s = [] then []
          else filter (\<lambda>t. length t > 0) (map (\<lambda>t. toLowerCase (trim t)) (split CHR '','' s)))"

definition completedValue :: "string \<Rightarrow> nat" where
  "completedValue c = (if c = ''true'' then 1 else 0)"

text \<open>The clauses \<open>t.userId = ?\<close> and \<open>t.completed = ?\<close>.\<close>

definition whereTask :: "nat \<Rightarrow> options \<Rightarrow> task_row \<Rightarrow> bool" where
  "whereTask uid opts t =
     (userId t = uid \<and>
      (case opt_completed opts of None \<Rightarrow> True | Some c \<Rightarrow> completed t = completedValue c))"

text \<open>The clause \<open>lower(ta.name) IN (lower(?), ...)\<close>.\<close>

definition whereTag :: "string list \<Rightarrow> tag \<Rightarrow> bool" where
  "whereTag names ta = (sql_lower (tag_name ta) \<in> set (map sql_lower names))"

text \<open>
  \<open>FROM tasks t INNER JOIN task_tags tt ON t.id = tt.task_id
   INNER JOIN tags ta ON tt.tag_id = ta.id\<close>, with the \<open>WHERE\<close> clauses.
\<close>

definition joinTaskTags :: "db \<Rightarrow> (task_row \<times> tag) list" where
  "joinTaskTags d =
     [(t, ta). t \<leftarrow> tasks_tbl d, tt \<leftarrow> task_tags_tbl d, fst tt = task_id t,
               ta \<leftarrow> tags_tbl d, snd tt = tag_id ta]"

definition joinedRows :: "db \<Rightarrow> nat \<Rightarrow> options \<Rightarrow> (task_row \<times> tag) list" where
  "joinedRows d uid opts =
     filter (\<lambda>r. whereTask uid opts (fst r) \<and> whereTag (tagNamesToFilter opts) (snd r))
       (joinTaskTags d)"

text \<open>\<open>COUNT(DISTINCT lower(ta.name))\<close> over the rows of one group.\<close>

definition countDistinctNames :: "(task_row \<times> tag) list \<Rightarrow> nat" where
  "countDistinctNames rows = length (remdups (map (\<lambda>r. sql_lower (tag_name (snd r))) rows))"

text \<open>
  The page query before \<open>ORDER BY\<close>: \<open>SELECT DISTINCT\<close> of the task columns, grouped by
  them under \<open>HAVING COUNT(DISTINCT lower(ta.name)) = ?\<close> in the mode \<open>all\<close>.  Without
  an \<open>ORDER BY\<close> SQLite delivers the rows in an order of its choosing; the list here has
  them in the order of the scan of \<open>tasks\<close>, which is one such order, and the statements
  below use of an unsorted result only its length and the set of its rows.
\<close>

definition selectTasks :: "db \<Rightarrow> nat \<Rightarrow> options \<Rightarrow> task_row list" where
  "selectTasks d uid opts =
     (let names = tagNamesToFilter opts
      in if names = [] then remdups (filter (whereTask uid opts) (tasks_tbl d))
         else
           (let rows = joinedRows d uid opts
            in if tagMatchMode opts = ''all''
               then remdups
                      (filter (\<lambda>g. countDistinctNames (filter (\<lambda>r. fst r = g) rows) = length names)
                         (remdups (map fst rows)))
               else remdups (map fst rows)))"

text \<open>
  The count query.  In the mode \<open>all\<close> it counts the groups by \<open>t.id\<close> that pass the
  same \<open>HAVING\<close>; in the mode \<open>any\<close> it is \<open>COUNT(DISTINCT t.id)\<close>; in every other case
  it is \<open>COUNT(t.id)\<close> over the rows.
\<close>

definition countTasks :: "db \<Rightarrow> nat \<Rightarrow> options \<Rightarrow> nat" where
  "countTasks d uid opts =
     (let names = tagNamesToFilter opts
      in if names = [] then length (filter (whereTask uid opts) (tasks_tbl d))
         else
           (let rows = joinedRows d uid opts
            in if tagMatchMode opts = ''all''
               then length
                      (filter (\<lambda>i. countDistinctNames (filter (\<lambda>r. task_id (fst r) = i) rows)
                                     = length names)
                         (remdups (map (\<lambda>r. task_id (fst r)) rows)))
               else if tagMatchMode opts = ''any''
               then length (remdups (map (\<lambda>r. task_id (fst r)) rows))
               else length rows))"

subsection \<open>Sorting and pagination\<close>

text \<open>
  \<open>ORDER BY\<close> on one column.  Rows with equal keys keep the order they came in; SQLite
  leaves their order open, and nothing below depends on it.  The columns \<open>createdAt\<close>
  and \<open>updatedAt\<close> compare as instants, \<open>title\<close> code unit by code unit, and
  \<open>completed\<close> as 0 and 1.
\<close>

fun insertBy :: "('a \<Rightarrow> 'a \<Rightarrow> bool) \<Rightarrow> 'a \<Rightarrow> 'a list \<Rightarrow> 'a list" where
  "insertBy le x [] = [x]"
| "insertBy le x (y # ys) = (if le x y then x # y # ys else y # insertBy le x ys)"

definition orderBy :: "('a \<Rightarrow> 'a \<Rightarrow> bool) \<Rightarrow> 'a list \<Rightarrow> 'a list" where
  "orderBy le xs = foldr (insertBy le) xs []"

definition allowedFields :: "string list" where
  "allowedFields = [''createdAt'', ''updatedAt'', ''title'', ''completed'']"

definition fieldLe :: "string \<Rightarrow> task_row \<Rightarrow> task_row \<Rightarrow> bool" where
  "fieldLe field a b =
     (if field = ''createdAt'' then createdAt a \<le> createdAt b
      else if field = ''updatedAt'' then updatedAt a \<le> updatedAt b
      else if field = ''title'' then title a \<le> title b
      else completed a \<le> completed b)"

definition orderByField :: "string \<Rightarrow> bool \<Rightarrow> task_row list \<Rightarrow> task_row list" where
  "orderByField field desc xs =
     orderBy (\<lambda>a b. if desc then fieldLe field b a else fieldLe field a b) xs"

text \<open>
  \<open>const [field, order] = options.sortBy.split('_')\<close>; a missing or empty \<open>order\<close> is
  ascending.  A field outside \<open>allowedFields\<close> adds no \<open>ORDER BY\<close>; without the option
  the order is \<open>createdAt DESC\<close>.
\<close>

definition sortField :: "string \<Rightarrow> string" where
  "sortField s = (case split CHR ''_'' s of [] \<Rightarrow> [] | field # rest \<Rightarrow> field)"

definition sortDescending :: "string \<Rightarrow> bool" where
  "sortDescending s =
     (case split CHR ''_'' s of
        field # ord # rest \<Rightarrow> ord \<noteq> [] \<and> toUpperCase ord = ''DESC''
      | _ \<Rightarrow> False)"

definition applySort :: "options \<Rightarrow> task_row list \<Rightarrow> task_row list" where
  "applySort opts xs =
     (case opt_sortBy opts of
        None \<Rightarrow> orderByField ''createdAt'' True xs
      | Some s \<Rightarrow>
          if s = [] then orderByField ''createdAt'' True xs
          else if sortField s \<in> set allowedFields
          then orderByField (sortField s) (sortDescending s) xs
          else xs)"

text \<open>
  \<open>LIMIT ? OFFSET ?\<close>: SQLite reads a negative limit as no limit and a negative offset
  as 0.
\<close>

definition limitOffset :: "int \<Rightarrow> int \<Rightarrow> 'a list \<Rightarrow> 'a list" where
  "limitOffset l off xs =
     (let ys = drop (nat off) xs in if l < 0 then ys else take (nat l) ys)"

text \<open>\<open>parseInt(x, 10) || dflt\<close> on a number or \<open>undefined\<close>.\<close>

definition parseIntOr :: "int option \<Rightarrow> int \<Rightarrow> int" where
  "parseIntOr x dflt = (case x of None \<Rightarrow> dflt | Some n \<Rightarrow> if n = 0 then dflt else n)"

text \<open>\<open>Math.ceil(total / limit)\<close> for a limit that is not 0.\<close>

definition ceilDiv :: "int \<Rightarrow> int \<Rightarrow> int" where
  "ceilDiv a b = - ((- a) div b)"

text \<open>The page query up to its \<open>ORDER BY\<close>, before \<open>LIMIT\<close> and \<open>OFFSET\<close>.\<close>

definition pageQuery :: "db \<Rightarrow> nat \<Rightarrow> options \<Rightarrow> task_row list" where
  "pageQuery d uid opts = applySort opts (selectTasks d uid opts)"

definition getAllTasks :: "db \<Rightarrow> nat \<Rightarrow> options \<Rightarrow> task_list" where
  "getAllTasks d uid opts =
     (let total = int (countTasks d uid opts);
          page = parseIntOr (opt_page opts) 1;
          limit = parseIntOr (opt_limit opts) 10;
          offset = (page - 1) * limit;
          tasksFromDb = limitOffset limit offset (pageQuery d uid opts)
      in \<lparr>tasks = map (\<lambda>r. transformTaskFromDb r (getTagsForTask d (task_id r))) tasksFromDb,
          total = total, page = page, limit = limit, totalPages = ceilDiv total limit\<rparr>)"

section \<open>Updating a task\<close>

record updateData =
  upd_title :: "string option"
  upd_description :: "string option"
  upd_completed :: "bool option"
  upd_tags :: "string list option"

text \<open>
  \<open>UPDATE tasks SET title = ?, description = ?, completed = ?, updatedAt = ?
   WHERE id = ? AND userId = ?\<close>.
\<close>

definition updateTaskRow ::
  "db \<Rightarrow> nat \<Rightarrow> nat \<Rightarrow> string \<Rightarrow> string \<Rightarrow> bool \<Rightarrow> nat \<Rightarrow> db" where
  "updateTaskRow d i uid newTitle newDescription newCompleted newUpdatedAt =
     d\<lparr>tasks_tbl :=
         map (\<lambda>t. if task_id t = i \<and> userId t = uid
                  then t\<lparr>title := newTitle, description := newDescription,
                         completed := (if newCompleted then 1 else 0),
                         updatedAt := newUpdatedAt\<rparr>
                  else t)
           (tasks_tbl d)\<rparr>"

text \<open>
  \<open>now\<close> is the reading of the wall clock, \<open>new Date()\<close>, in milliseconds.  The result
  is \<open>null\<close> when the task is not there or not the caller's.
\<close>

definition updateTask ::
  "db \<Rightarrow> nat \<Rightarrow> nat \<Rightarrow> updateData \<Rightarrow> nat \<Rightarrow> error + (task option \<times> db)" where
  "updateTask d now i upd uid =
     (case getTaskById d i uid of
        None \<Rightarrow> Inr (None, d)
      | Some existingTask \<Rightarrow>
          (let newTitle = (case upd_title upd of Some x \<Rightarrow> x | None \<Rightarrow> task_title existingTask);
               newDescription =
                 (case upd_description upd of Some x \<Rightarrow> x
                  | None \<Rightarrow> task_description existingTask);
               newCompletedInput =
                 (case upd_completed upd of Some x \<Rightarrow> x | None \<Rightarrow> task_completed existingTask);
               d1 = updateTaskRow d i uid newTitle newDescription newCompletedInput now
           in case upd_tags upd of
                None \<Rightarrow> Inr (getTaskById d1 i uid, d1)
              | Some newTags \<Rightarrow>
                  (let d2 = clearTagsForTask d1 i
                   in if newTags \<noteq> []
                      then (case addTagsToTask d2 i newTags uid of
                              Inl e \<Rightarrow> Inl e
                            | Inr d3 \<Rightarrow> Inr (getTaskById d3 i uid, d3))
                      else Inr (getTaskById d2 i uid, d2))))"

section \<open>Deleting a tag: \<open>deleteTag\<close>\<close>

text \<open>
  \<open>SELECT 1 FROM task_tags tt JOIN tasks t ON tt.task_id = t.id
   WHERE tt.tag_id = ? AND t.userId = ? LIMIT 1\<close>.
\<close>

definition userUsesTag :: "db \<Rightarrow> nat \<Rightarrow> nat \<Rightarrow> bool" where
  "userUsesTag d tagId uid =
     list_ex (\<lambda>tt. snd tt = tagId \<and> list_ex (\<lambda>t. task_id t = fst tt \<and> userId t = uid) (tasks_tbl d))
       (task_tags_tbl d)"

text \<open>\<open>SELECT 1 FROM task_tags WHERE tag_id = ? LIMIT 1\<close>.\<close>

definition anyTaskUsingTag :: "db \<Rightarrow> nat \<Rightarrow> bool" where
  "anyTaskUsingTag d tagId = list_ex (\<lambda>tt. snd tt = tagId) (task_tags_tbl d)"

definition tagNotFound :: error where
  "tagNotFound = AppError ''Tag not found.'' 404"

definition noPermissionToDelete :: error where
  "noPermissionToDelete =
     AppError ''You do not have permission to delete this tag as it is not associated with your tasks.'' 403"

definition tagStillInUse :: error where
  "tagStillInUse =
     AppError ''Tag cannot be deleted as it is still associated with one or more tasks.'' 400"

definition tagNotDeleted :: error where
  "tagNotDeleted =
     AppError ''Tag not found or could not be deleted (it may have been removed by another process).'' 404"

text \<open>
  \<open>DELETE FROM tags WHERE id = ?\<close>, with the cascade of the foreign key of \<open>task_tags\<close>.
\<close>

definition deleteTagRow :: "db \<Rightarrow> nat \<Rightarrow> db" where
  "deleteTagRow d tagId =
     d\<lparr>tags_tbl := filter (\<lambda>t. tag_id t \<noteq> tagId) (tags_tbl d),
       task_tags_tbl := filter (\<lambda>tt. snd tt \<noteq> tagId) (task_tags_tbl d)\<rparr>"

text \<open>The result pairs what the call returns or throws with the state it leaves.\<close>

definition deleteTag :: "db \<Rightarrow> nat \<Rightarrow> nat \<Rightarrow> (error + bool) \<times> db" where
  "deleteTag d tagId uid =
     (case find (\<lambda>t. tag_id t = tagId) (tags_tbl d) of
        None \<Rightarrow> (Inl tagNotFound, d)
      | Some tagExists \<Rightarrow>
          if \<not> userUsesTag d tagId uid then (Inl noPermissionToDelete, d)
          else if anyTaskUsingTag d tagId then (Inl tagStillInUse, d)
          else
            (let d' = deleteTagRow d tagId;
                 changes = length (tags_tbl d) - length (tags_tbl d')
             in if changes = 0 then (Inl tagNotDeleted, d') else (Inr True, d')))"

section \<open>Request validation of the list operation\<close>

text \<open>
  \<open>getTasksQuerySchema\<close>.  The pattern of \<open>sortBy\<close> is
  \<open>/^(createdAt|updatedAt|title|completed)_(ASC|DESC)$/i\<close>; a letter of the pattern
  matches its two cases.  \<open>tags\<close> and \<open>tagMatchMode\<close> are trimmed before they are
  checked, and the trimmed values are passed on.  A string option may not be empty.
\<close>

definition sortByPatterns :: "string list" where
  "sortByPatterns = [f @ ''_'' @ ord. f \<leftarrow> allowedFields, ord \<leftarrow> [''ASC'', ''DESC'']]"

definition validSortBy :: "string \<Rightarrow> bool" where
  "validSortBy s = (toUpperCase s \<in> set (map toUpperCase sortByPatterns))"

definition validTagMatchMode :: "string \<Rightarrow> bool" where
  "validTagMatchMode m = (trim m = ''all'' \<or> trim m = ''any'')"

definition queryErrors :: "options \<Rightarrow> string list" where
  "queryErrors q =
     (case opt_page q of None \<Rightarrow> [] | Some p \<Rightarrow> if 1 \<le> p then [] else [''page''])
     @ (case opt_limit q of None \<Rightarrow> [] | Some l \<Rightarrow> if 1 \<le> l \<and> l \<le> 100 then [] else [''limit''])
     @ (case opt_completed q of None \<Rightarrow> []
        | Some c \<Rightarrow> if c = ''true'' \<or> c = ''false'' then [] else [''completed''])
     @ (case opt_sortBy q of None \<Rightarrow> [] | Some s \<Rightarrow> if validSortBy s then [] else [''sortBy''])
     @ (case opt_tags q of None \<Rightarrow> []
        | Some s \<Rightarrow> if 1 \<le> length (trim s) \<and> length (trim s) \<le> 200 then [] else [''tags''])
     @ (case opt_tagMatchMode q of None \<Rightarrow> []
        | Some m \<Rightarrow> if validTagMatchMode m then [] else [''tagMatchMode''])"

definition validateGetTasksQuery :: "options \<Rightarrow> error + options" where
  "validateGetTasksQuery q =
     (if queryErrors q = []
      then Inr (q\<lparr>opt_tags := map_option trim (opt_tags q),
                  opt_tagMatchMode := map_option trim (opt_tagMatchMode q)\<rparr>)
      else Inl (ValidationError (queryErrors q)))"

text \<open>\<open>GET /tasks\<close>: the validation, then the controller and the service.\<close>

definition listTasks :: "db \<Rightarrow> nat \<Rightarrow> options \<Rightarrow> error + task_list" where
  "listTasks d uid q =
     (case validateGetTasksQuery q of
        Inl e \<Rightarrow> Inl e
      | Inr q' \<Rightarrow> Inr (getAllTasks d uid q'))"

section \<open>Constraints of the schema\<close>

text \<open>
  \<open>tasks.id\<close> and \<open>tags.id\<close> are primary keys.  Every write of a tag name
  (\<open>findOrCreateTag\<close>, \<open>updateTag\<close>) stores the lower-case form, so a stored name is
  its own \<open>lower()\<close>.
\<close>

definition tasksKeyed :: "db \<Rightarrow> bool" where
  "tasksKeyed d = distinct (map task_id (tasks_tbl d))"

definition tagsCanonical :: "db \<Rightarrow> bool" where
  "tagsCanonical d =
     (distinct (map tag_id (tags_tbl d))
      \<and> list_all (\<lambda>t. sql_lower (tag_name t) = tag_name t) (tags_tbl d))"

section \<open>An example state\<close>

text \<open>
  Two users.  User 1 has the tasks 1 (tags \<open>a\<close> and \<open>b\<close>) and 2 (tag \<open>a\<close>);
  user 2 has the task 3 (tag \<open>b\<close>) and the task 4 (tag \<open>c\<close>).
\<close>

definition exampleTask :: "nat \<Rightarrow> string \<Rightarrow> nat \<Rightarrow> nat \<Rightarrow> nat \<Rightarrow> task_row" where
  "exampleTask i ti c ts uid =
     \<lparr>task_id = i, title = ti, description = [], completed = c, createdAt = ts,
      updatedAt = ts, userId = uid\<rparr>"

definition exampleDb :: db where
  "exampleDb =
     \<lparr>tasks_tbl = [exampleTask 1 ''first'' 0 100 1, exampleTask 2 ''second'' 1 200 1,
                  exampleTask 3 ''third'' 0 300 2, exampleTask 4 ''fourth'' 0 400 2],
      tags_tbl = [\<lparr>tag_id = 1, tag_name = ''a''\<rparr>, \<lparr>tag_id = 2, tag_name = ''b''\<rparr>,
                 \<lparr>tag_id = 3, tag_name = ''c''\<rparr>],
      task_tags_tbl = [(1, 1), (1, 2), (2, 1), (3, 2), (4, 3)],
      tasks_seq = 4, tags_seq = 3\<rparr>"

definition noOptions :: options where
  "noOptions =
     \<lparr>opt_page = None, opt_limit = None, opt_completed = None, opt_sortBy = None,
      opt_tags = None, opt_tagMatchMode = None\<rparr>"

definition noUpdate :: updateData where
  "noUpdate = \<lparr>upd_title = None, upd_description = None, upd_completed = None, upd_tags = None\<rparr>"

definition exampleUpdate :: updateData where
  "exampleUpdate =
     \<lparr>upd_title = Some ''renamed'', upd_description = None, upd_completed = None,
      upd_tags = Some [''Home'', '' home '', ''  '', ''B'']\<rparr>"

definition pagedOptions :: options where
  "pagedOptions = noOptions\<lparr>opt_limit := Some 1, opt_tags := Some ''b,c'',
                             opt_tagMatchMode := Some ''any''\<rparr>"

definition tagOptions :: options where
  "tagOptions = noOptions\<lparr>opt_tags := Some ''a,b''\<rparr>"

definition prioritySort :: options where
  "prioritySort = noOptions\<lparr>opt_sortBy := Some ''priority_ASC''\<rparr>"

section \<open>Properties of the string functions\<close>

lemma toLowerCaseChar_idem: "toLowerCaseChar (toLowerCaseChar c) = toLowerCaseChar c"
  unfolding toLowerCaseChar_def Let_def by simp

lemma isWhiteSpace_toLowerCaseChar: "isWhiteSpace (toLowerCaseChar c) = isWhiteSpace c"
  unfolding toLowerCaseChar_def isWhiteSpace_def Let_def by simp

lemma sql_lower_char_toLowerCaseChar: "sql_lower_char (toLowerCaseChar c) = toLowerCaseChar c"
  unfolding toLowerCaseChar_def sql_lower_char_def Let_def by simp

lemma toLowerCase_idem: "toLowerCase (toLowerCase s) = toLowerCase s"
  by (simp add: toLowerCase_def toLowerCaseChar_idem)

lemma sql_lower_toLowerCase: "sql_lower (toLowerCase s) = toLowerCase s"
  by (simp add: toLowerCase_def sql_lower_def sql_lower_char_toLowerCaseChar)

lemma dropWhile_unchanged: "xs = [] \<or> \<not> P (hd xs) \<Longrightarrow> dropWhile P xs = xs"
  by (cases xs) auto

lemma dropWhile_head: "dropWhile P xs = [] \<or> \<not> P (hd (dropWhile P xs))"
  by (metis hd_dropWhile)

lemma rev_dropWhile_rev_head:
  assumes "xs = [] \<or> \<not> P (hd xs)"
  shows "rev (dropWhile P (rev xs)) = [] \<or> \<not> P (hd (rev (dropWhile P (rev xs))))"
proof -
  let ?ys = "rev (dropWhile P (rev xs))"
  have "xs = rev (takeWhile P (rev xs) @ dropWhile P (rev xs))" by simp
  also have "\<dots> = ?ys @ rev (takeWhile P (rev xs))" by (simp only: rev_append)
  finally have split: "xs = ?ys @ rev (takeWhile P (rev xs))" .
  show ?thesis
  proof (cases "?ys = []")
    case True then show ?thesis by simp
  next
    case False
    then have "hd xs = hd ?ys" using split by (metis hd_append2)
    moreover have "xs \<noteq> []" using False split by auto
    ultimately show ?thesis using assms by simp
  qed
qed

lemma trim_head: "trim s = [] \<or> \<not> isWhiteSpace (hd (trim s))"
  unfolding trim_def by (rule rev_dropWhile_rev_head) (rule dropWhile_head)

lemma trim_idem: "trim (trim s) = trim s"
proof -
  have "dropWhile isWhiteSpace (trim s) = trim s"
    by (rule dropWhile_unchanged) (rule trim_head)
  then have "trim (trim s) = rev (dropWhile isWhiteSpace (rev (trim s)))"
    by (simp add: trim_def)
  also have "\<dots> = trim s" by (simp add: trim_def)
  finally show ?thesis .
qed

lemma dropWhile_isWhiteSpace_lower:
  "dropWhile isWhiteSpace (map toLowerCaseChar xs) = map toLowerCaseChar (dropWhile isWhiteSpace xs)"
  by (induction xs) (simp_all add: isWhiteSpace_toLowerCaseChar)

lemma trim_toLowerCase: "trim (toLowerCase s) = toLowerCase (trim s)"
  by (simp add: trim_def toLowerCase_def dropWhile_isWhiteSpace_lower rev_map)

lemma canonical_idem: "toLowerCase (trim (toLowerCase (trim s))) = toLowerCase (trim s)"
  by (simp add: trim_toLowerCase trim_idem toLowerCase_idem)



section \<open>Properties of the tag store\<close>


lemma insertTag_after_miss:
  assumes "selectTagByName d c = None"
  shows "insertTag d c =
           Inr (lastID (map tag_id (tags_tbl d)) (tags_seq d),
                d\<lparr>tags_tbl := tags_tbl d @ [\<lparr>tag_id = lastID (map tag_id (tags_tbl d)) (tags_seq d),
                                              tag_name = c\<rparr>],
                  tags_seq := lastID (map tag_id (tags_tbl d)) (tags_seq d)\<rparr>)"
proof -
  have "\<not> list_ex (\<lambda>t. sql_lower (tag_name t) = sql_lower c) (tags_tbl d)"
    using assms by (simp add: selectTagByName_def find_None_iff list_ex_iff)
  then show ?thesis by (simp add: insertTag_def Let_def)
qed

lemma findOrCreateTag_hit:
  assumes "trim s \<noteq> []" and "selectTagByName d (toLowerCase (trim s)) = Some t"
  shows "findOrCreateTag d s = Inr (Some (t\<lparr>tag_name := toLowerCase (trim s)\<rparr>), d)"
  using assms by (simp add: findOrCreateTag_def Let_def)

lemma findOrCreateTag_miss:
  assumes "trim s \<noteq> []" and "selectTagByName d (toLowerCase (trim s)) = None"
  shows "findOrCreateTag d s =
           Inr (Some \<lparr>tag_id = lastID (map tag_id (tags_tbl d)) (tags_seq d),
                      tag_name = toLowerCase (trim s)\<rparr>,
                d\<lparr>tags_tbl := tags_tbl d @ [\<lparr>tag_id = lastID (map tag_id (tags_tbl d)) (tags_seq d),
                                              tag_name = toLowerCase (trim s)\<rparr>],
                  tags_seq := lastID (map tag_id (tags_tbl d)) (tags_seq d)\<rparr>)"
  using assms by (simp add: findOrCreateTag_def Let_def insertTag_after_miss)





text \<open>
  Claim C9, as the code has it.  For a name whose trimmed form is empty,
  \<open>findOrCreateTag\<close> does not throw: it returns \<open>null\<close>, and the state is the one it
  was given, so no tag row is written.  (\<open>addTagsToTask\<close> drops the \<open>null\<close>s.)
\<close>

theorem findOrCreateTag_empty_name:
  assumes "trim s = []"
  shows "findOrCreateTag d s = Inr (None, d)"
  using assms by (simp add: findOrCreateTag_def)

theorem findOrCreateTag_empty_name_witness:
  "trim ''  '' = [] \<and> findOrCreateTag exampleDb ''  '' = Inr (None, exampleDb)"
proof -
  have t: "trim ''  '' = []" by (simp add: trim_def isWhiteSpace_def)
  show ?thesis using findOrCreateTag_empty_name [OF t, of exampleDb] t by simp
qed

text \<open>
  The claim C9 as stated asks for an error.  On the name of one blank the call returns
  normally with \<open>null\<close>.
\<close>

theorem findOrCreateTag_empty_name_counterexample:
  "trim [CHR '' ''] = []
   \<and> findOrCreateTag exampleDb [CHR '' ''] = Inr (None, exampleDb)
   \<and> \<not> isl (findOrCreateTag exampleDb [CHR '' ''])"
  by (simp add: findOrCreateTag_def trim_def isWhiteSpace_def)

section \<open>Properties of \<open>deleteTag\<close>\<close>

lemma userUsesTag_anyTaskUsingTag: "userUsesTag d tagId uid \<Longrightarrow> anyTaskUsingTag d tagId"
  by (auto simp: userUsesTag_def anyTaskUsingTag_def list_ex_iff)

lemma find_tag_exists:
  "list_ex (\<lambda>t. tag_id t = tagId) (tags_tbl d) \<Longrightarrow>
     \<exists>t. find (\<lambda>t. tag_id t = tagId) (tags_tbl d) = Some t"
  by (cases "find (\<lambda>t. tag_id t = tagId) (tags_tbl d)")
     (auto simp: find_None_iff list_ex_iff)

lemma find_tag_missing:
  "\<not> list_ex (\<lambda>t. tag_id t = tagId) (tags_tbl d) \<Longrightarrow>
     find (\<lambda>t. tag_id t = tagId) (tags_tbl d) = None"
  by (simp add: find_None_iff list_ex_iff)

lemma deleteTag_missing:
  "\<not> list_ex (\<lambda>t. tag_id t = tagId) (tags_tbl d) \<Longrightarrow> deleteTag d tagId uid = (Inl tagNotFound, d)"
  by (simp add: deleteTag_def find_tag_missing)

lemma deleteTag_no_permission:
  assumes "list_ex (\<lambda>t. tag_id t = tagId) (tags_tbl d)" and "\<not> userUsesTag d tagId uid"
  shows "deleteTag d tagId uid = (Inl noPermissionToDelete, d)"
proof -
  obtain t where "find (\<lambda>t. tag_id t = tagId) (tags_tbl d) = Some t"
    using find_tag_exists [OF assms(1)] by blast
  then show ?thesis using assms(2) by (simp add: deleteTag_def)
qed

lemma deleteTag_in_use:
  assumes "list_ex (\<lambda>t. tag_id t = tagId) (tags_tbl d)" and "userUsesTag d tagId uid"
  shows "deleteTag d tagId uid = (Inl tagStillInUse, d)"
proof -
  obtain t where "find (\<lambda>t. tag_id t = tagId) (tags_tbl d) = Some t"
    using find_tag_exists [OF assms(1)] by blast
  moreover have "anyTaskUsingTag d tagId"
    using assms(2) by (rule userUsesTag_anyTaskUsingTag)
  ultimately show ?thesis using assms(2) by (simp add: deleteTag_def)
qed

text \<open>
  Claim C4, as the code has it.  A tag that exists, that a task of another user still
  references and that no task of the requester references: \<open>deleteTag\<close> checks the
  permission of the requester before it looks at the use of the tag, so it throws the
  permission error (403) and not the error of a tag still in use; the tables are unchanged.
\<close>

theorem deleteTag_of_other_users_tag:
  assumes "list_ex (\<lambda>t. tag_id t = tagId) (tags_tbl d)"
    and "other \<noteq> uid"
    and "userUsesTag d tagId other"
    and "\<not> userUsesTag d tagId uid"
  shows "deleteTag d tagId uid = (Inl noPermissionToDelete, d)"
  using assms(1) assms(4) by (rule deleteTag_no_permission)

theorem deleteTag_of_other_users_tag_witness:
  "list_ex (\<lambda>t. tag_id t = 3) (tags_tbl exampleDb)
   \<and> (2::nat) \<noteq> 1
   \<and> userUsesTag exampleDb 3 2
   \<and> \<not> userUsesTag exampleDb 3 1
   \<and> deleteTag exampleDb 3 1 = (Inl noPermissionToDelete, exampleDb)"
proof -
  have h1: "list_ex (\<lambda>t. tag_id t = 3) (tags_tbl exampleDb)" by code_simp
  have h2: "(2::nat) \<noteq> 1" by simp
  have h3: "userUsesTag exampleDb 3 2" by code_simp
  have h4: "\<not> userUsesTag exampleDb 3 1" by code_simp
  from deleteTag_of_other_users_tag [OF h1 h2 h3 h4] h1 h3 h4 show ?thesis by simp
qed

text \<open>
  The claim C4 as stated asks for the error of a tag still in use.  Tag 3 of the example
  is referenced by a task of user 2 only; user 1 asking to delete it gets the permission
  error.
\<close>

theorem deleteTag_of_other_users_tag_counterexample:
  "userUsesTag exampleDb 3 2
   \<and> \<not> userUsesTag exampleDb 3 1
   \<and> fst (deleteTag exampleDb 3 1) = Inl noPermissionToDelete
   \<and> fst (deleteTag exampleDb 3 1) \<noteq> Inl tagStillInUse"
proof -
  have h1: "list_ex (\<lambda>t. tag_id t = 3) (tags_tbl exampleDb)" by code_simp
  have h3: "userUsesTag exampleDb 3 2" by code_simp
  have h4: "\<not> userUsesTag exampleDb 3 1" by code_simp
  have "deleteTag exampleDb 3 1 = (Inl noPermissionToDelete, exampleDb)"
    using h1 h4 by (rule deleteTag_no_permission)
  then show ?thesis using h3 h4 by (simp add: noPermissionToDelete_def tagStillInUse_def)
qed

text \<open>
  Claim C10.  For every tag id and every requester \<open>deleteTag\<close> throws and leaves the
  state as it was, so no tag row is ever removed.  For a tag that exists: a requester with
  no task referencing it gets the permission error; a requester with such a task gets the
  error of a tag still in use, because that very task still references the tag.  (An id
  with no tag row gets the error of a tag not found.)
\<close>

theorem deleteTag_never_removes:
  "snd (deleteTag d tagId uid) = d
   \<and> isl (fst (deleteTag d tagId uid))
   \<and> (list_ex (\<lambda>t. tag_id t = tagId) (tags_tbl d) \<longrightarrow>
        (\<not> userUsesTag d tagId uid \<longrightarrow> fst (deleteTag d tagId uid) = Inl noPermissionToDelete)
        \<and> (userUsesTag d tagId uid \<longrightarrow>
             anyTaskUsingTag d tagId \<and> fst (deleteTag d tagId uid) = Inl tagStillInUse))
   \<and> (\<not> list_ex (\<lambda>t. tag_id t = tagId) (tags_tbl d) \<longrightarrow>
        fst (deleteTag d tagId uid) = Inl tagNotFound)"
proof (cases "list_ex (\<lambda>t. tag_id t = tagId) (tags_tbl d)")
  case False
  then show ?thesis by (simp add: deleteTag_missing)
next
  case exists: True
  show ?thesis
  proof (cases "userUsesTag d tagId uid")
    case True
    then show ?thesis
      using exists by (simp add: deleteTag_in_use userUsesTag_anyTaskUsingTag)
  next
    case False
    then show ?thesis
      using exists by (simp add: deleteTag_no_permission)
  qed
qed

theorem deleteTag_never_removes_witness:
  "list_ex (\<lambda>t. tag_id t = 1) (tags_tbl exampleDb)
   \<and> userUsesTag exampleDb 1 1
   \<and> deleteTag exampleDb 1 1 = (Inl tagStillInUse, exampleDb)
   \<and> list_ex (\<lambda>t. tag_id t = 3) (tags_tbl exampleDb)
   \<and> \<not> userUsesTag exampleDb 3 1
   \<and> deleteTag exampleDb 3 1 = (Inl noPermissionToDelete, exampleDb)
   \<and> \<not> list_ex (\<lambda>t. tag_id t = 9) (tags_tbl exampleDb)
   \<and> deleteTag exampleDb 9 1 = (Inl tagNotFound, exampleDb)"
proof -
  have e1: "list_ex (\<lambda>t. tag_id t = 1) (tags_tbl exampleDb)" by code_simp
  have u1: "userUsesTag exampleDb 1 1" by code_simp
  have e3: "list_ex (\<lambda>t. tag_id t = 3) (tags_tbl exampleDb)" by code_simp
  have u3: "\<not> userUsesTag exampleDb 3 1" by code_simp
  have e9: "\<not> list_ex (\<lambda>t. tag_id t = 9) (tags_tbl exampleDb)" by code_simp
  have r1: "deleteTag exampleDb 1 1 = (Inl tagStillInUse, exampleDb)"
    using deleteTag_never_removes [of exampleDb 1 1] e1 u1 by (simp add: prod_eq_iff)
  have r3: "deleteTag exampleDb 3 1 = (Inl noPermissionToDelete, exampleDb)"
    using deleteTag_never_removes [of exampleDb 3 1] e3 u3 by (simp add: prod_eq_iff)
  have r9: "deleteTag exampleDb 9 1 = (Inl tagNotFound, exampleDb)"
    using deleteTag_never_removes [of exampleDb 9 1] e9 by (simp add: prod_eq_iff)
  show ?thesis using e1 u1 e3 u3 e9 r1 r3 r9 by simp
qed

section \<open>Properties of \<open>updateTask\<close>\<close>

lemma fold_max_ge_init: "(s::nat) \<le> fold max ids s"
  by (induction ids arbitrary: s) (auto intro: order_trans [OF max.cobounded2])

lemma fold_max_ge: "x \<in> set ids \<Longrightarrow> (x::nat) \<le> fold max ids s"
proof (induction ids arbitrary: s)
  case Nil
  then show ?case by simp
next
  case (Cons a ids)
  show ?case
  proof (cases "x = a")
    case True
    have "a \<le> max a s" by simp
    also have "\<dots> \<le> fold max ids (max a s)" by (rule fold_max_ge_init)
    finally show ?thesis using True by simp
  next
    case False
    then have "x \<in> set ids" using Cons.prems by simp
    then show ?thesis using Cons.IH by simp
  qed
qed

lemma lastID_fresh: "lastID ids s \<notin> set ids"
proof
  assume "lastID ids s \<in> set ids"
  then have "lastID ids s \<le> fold max ids s" by (rule fold_max_ge)
  then show False by (simp add: lastID_def)
qed

lemma selectTagByName_Some:
  assumes "selectTagByName d c = Some t"
  shows "t \<in> set (tags_tbl d) \<and> sql_lower (tag_name t) = sql_lower c"
  using assms by (auto simp: selectTagByName_def find_Some_iff)

lemma findOrCreateTag_frame:
  "\<exists>r d'. findOrCreateTag d s = Inr (r, d') \<and> tasks_tbl d' = tasks_tbl d
          \<and> task_tags_tbl d' = task_tags_tbl d"
proof (cases "trim s = []")
  case True
  then show ?thesis by (simp add: findOrCreateTag_def)
next
  case False
  show ?thesis
  proof (cases "selectTagByName d (toLowerCase (trim s))")
    case None
    show ?thesis using findOrCreateTag_miss [OF False None] by simp
  next
    case (Some t)
    show ?thesis using findOrCreateTag_hit [OF False Some] by simp
  qed
qed

lemma findOrCreateTags_frame:
  "\<exists>ts d'. findOrCreateTags d ns = Inr (ts, d') \<and> tasks_tbl d' = tasks_tbl d
           \<and> task_tags_tbl d' = task_tags_tbl d"
proof (induction ns arbitrary: d)
  case Nil
  show ?case by simp
next
  case (Cons n ns)
  obtain r d1 where s1: "findOrCreateTag d n = Inr (r, d1)"
    and f1: "tasks_tbl d1 = tasks_tbl d" "task_tags_tbl d1 = task_tags_tbl d"
    using findOrCreateTag_frame [of d n] by blast
  obtain ts d2 where s2: "findOrCreateTags d1 ns = Inr (ts, d2)"
    and f2: "tasks_tbl d2 = tasks_tbl d1" "task_tags_tbl d2 = task_tags_tbl d1"
    using Cons.IH [of d1] by blast
  show ?case using s1 s2 f1 f2 by simp
qed

lemma fold_insertOrIgnore_frame:
  "tasks_tbl (fold (\<lambda>t. insertOrIgnoreTaskTag i (tag_id t)) xs d) = tasks_tbl d
   \<and> tags_tbl (fold (\<lambda>t. insertOrIgnoreTaskTag i (tag_id t)) xs d) = tags_tbl d"
  by (induction xs arbitrary: d) (simp_all add: insertOrIgnoreTaskTag_def)

lemma fold_insertOrIgnore_set:
  "set (task_tags_tbl (fold (\<lambda>t. insertOrIgnoreTaskTag i (tag_id t)) xs d))
     = set (task_tags_tbl d) \<union> (\<lambda>t. (i, tag_id t)) ` set xs"
  by (induction xs arbitrary: d) (auto simp: insertOrIgnoreTaskTag_def)

lemma addTagsToTask_frame:
  "\<exists>d'. addTagsToTask d i ns uid = Inr d' \<and> tasks_tbl d' = tasks_tbl d"
proof (cases "ns = []")
  case True
  then show ?thesis by (simp add: addTagsToTask_def)
next
  case False
  show ?thesis
  proof (cases "find (\<lambda>t. task_id t = i \<and> userId t = uid) (tasks_tbl d)")
    case None
    then show ?thesis using False by (simp add: addTagsToTask_def)
  next
    case (Some task)
    obtain ts d1 where s: "findOrCreateTags d ns = Inr (ts, d1)"
      and f: "tasks_tbl d1 = tasks_tbl d"
      using findOrCreateTags_frame [of d ns] by blast
    show ?thesis using False Some s f
      by (simp add: addTagsToTask_def fold_insertOrIgnore_frame)
  qed
qed

subsection \<open>The row after the update\<close>

lemma find_map_update:
  assumes "find P xs = Some r" and "\<And>x. P x \<Longrightarrow> P (f x)"
  shows "find P (map (\<lambda>x. if P x then f x else x) xs) = Some (f r)"
  using assms by (induction xs) (auto split: if_splits)

lemma getTaskById_Some:
  assumes "getTaskById d i uid = Some t"
  shows "\<exists>r. find (\<lambda>t. task_id t = i \<and> userId t = uid) (tasks_tbl d) = Some r
             \<and> t = transformTaskFromDb r (getTagsForTask d (task_id r)) \<and> task_id r = i"
  using assms by (auto simp: getTaskById_def find_Some_iff split: option.splits)

lemma find_updateTaskRow:
  assumes "find (\<lambda>t. task_id t = i \<and> userId t = uid) (tasks_tbl d) = Some r"
  shows "find (\<lambda>t. task_id t = i \<and> userId t = uid)
           (tasks_tbl (updateTaskRow d i uid ti de co now))
         = Some (r\<lparr>title := ti, description := de, completed := (if co then 1 else 0),
                   updatedAt := now\<rparr>)"
proof -
  have "find (\<lambda>t. task_id t = i \<and> userId t = uid)
          (map (\<lambda>x. if task_id x = i \<and> userId x = uid
                    then x\<lparr>title := ti, description := de, completed := (if co then 1 else 0),
                           updatedAt := now\<rparr> else x) (tasks_tbl d))
        = Some (r\<lparr>title := ti, description := de, completed := (if co then 1 else 0),
                  updatedAt := now\<rparr>)"
    by (rule find_map_update [where P = "\<lambda>t. task_id t = i \<and> userId t = uid", OF assms]) simp
  then show ?thesis by (simp add: updateTaskRow_def)
qed

subsection \<open>Resolving names on a canonical tag table\<close>

lemma sql_lower_canonical: "sql_lower (toLowerCase (trim s)) = toLowerCase (trim s)"
  by (rule sql_lower_toLowerCase)

lemma tagsCanonical_name:
  "tagsCanonical d \<Longrightarrow> t \<in> set (tags_tbl d) \<Longrightarrow> sql_lower (tag_name t) = tag_name t"
  by (simp add: tagsCanonical_def list_all_iff)

lemma tagsCanonical_insert:
  assumes "tagsCanonical d" and "sql_lower c = c"
  shows "tagsCanonical
           (d\<lparr>tags_tbl := tags_tbl d @ [\<lparr>tag_id = lastID (map tag_id (tags_tbl d)) (tags_seq d),
                                          tag_name = c\<rparr>],
              tags_seq := j\<rparr>)"
  using assms lastID_fresh [of "map tag_id (tags_tbl d)" "tags_seq d"]
  by (simp add: tagsCanonical_def)

lemma findOrCreateTag_resolves:
  assumes "tagsCanonical d"
  shows "\<exists>r d'. findOrCreateTag d s = Inr (r, d') \<and> tagsCanonical d'
           \<and> tasks_tbl d' = tasks_tbl d \<and> task_tags_tbl d' = task_tags_tbl d
           \<and> set (tags_tbl d) \<subseteq> set (tags_tbl d')
           \<and> (trim s = [] \<longrightarrow> r = None)
           \<and> (trim s \<noteq> [] \<longrightarrow>
                (\<exists>x. r = Some x \<and> x \<in> set (tags_tbl d') \<and> tag_name x = toLowerCase (trim s)))"
proof (cases "trim s = []")
  case True
  then show ?thesis using assms by (simp add: findOrCreateTag_def)
next
  case False
  let ?c = "toLowerCase (trim s)"
  show ?thesis
  proof (cases "selectTagByName d ?c")
    case None
    let ?i = "lastID (map tag_id (tags_tbl d)) (tags_seq d)"
    have "tagsCanonical (d\<lparr>tags_tbl := tags_tbl d @ [\<lparr>tag_id = ?i, tag_name = ?c\<rparr>], tags_seq := ?i\<rparr>)"
      using assms sql_lower_canonical by (rule tagsCanonical_insert)
    then show ?thesis using findOrCreateTag_miss [OF False None] False by auto
  next
    case (Some t)
    have mem: "t \<in> set (tags_tbl d)" and low: "sql_lower (tag_name t) = sql_lower ?c"
      using selectTagByName_Some [OF Some] by simp_all
    have "tag_name t = ?c"
      using tagsCanonical_name [OF assms mem] low sql_lower_canonical [of s] by simp
    then have same: "t\<lparr>tag_name := ?c\<rparr> = t" by simp
    have "findOrCreateTag d s = Inr (Some t, d)"
      using findOrCreateTag_hit [OF False Some] same by simp
    then show ?thesis using False assms mem \<open>tag_name t = ?c\<close>
      by auto
  qed
qed

lemma nonNull_simps:
  "nonNull [] = []"
  "nonNull (None # ts) = nonNull ts"
  "nonNull (Some x # ts) = x # nonNull ts"
  by (simp_all add: nonNull_def)

lemma findOrCreateTags_resolves:
  assumes "tagsCanonical d"
  shows "\<exists>ts d'. findOrCreateTags d ns = Inr (ts, d') \<and> tagsCanonical d'
           \<and> tasks_tbl d' = tasks_tbl d \<and> task_tags_tbl d' = task_tags_tbl d
           \<and> set (tags_tbl d) \<subseteq> set (tags_tbl d')
           \<and> set (nonNull ts) \<subseteq> set (tags_tbl d')
           \<and> tag_name ` set (nonNull ts)
               = (\<lambda>n. toLowerCase (trim n)) ` {n \<in> set ns. trim n \<noteq> []}"
  using assms
proof (induction ns arbitrary: d)
  case Nil
  then show ?case by (simp add: nonNull_simps)
next
  case (Cons n ns)
  obtain r d1 where s1: "findOrCreateTag d n = Inr (r, d1)" and c1: "tagsCanonical d1"
    and f1: "tasks_tbl d1 = tasks_tbl d" "task_tags_tbl d1 = task_tags_tbl d"
    and m1: "set (tags_tbl d) \<subseteq> set (tags_tbl d1)"
    and e1: "trim n = [] \<longrightarrow> r = None"
    and n1: "trim n \<noteq> [] \<longrightarrow>
               (\<exists>x. r = Some x \<and> x \<in> set (tags_tbl d1) \<and> tag_name x = toLowerCase (trim n))"
    using findOrCreateTag_resolves [OF Cons.prems, of n] by blast
  obtain ts d2 where s2: "findOrCreateTags d1 ns = Inr (ts, d2)" and c2: "tagsCanonical d2"
    and f2: "tasks_tbl d2 = tasks_tbl d1" "task_tags_tbl d2 = task_tags_tbl d1"
    and m2: "set (tags_tbl d1) \<subseteq> set (tags_tbl d2)"
    and r2: "set (nonNull ts) \<subseteq> set (tags_tbl d2)"
    and n2: "tag_name ` set (nonNull ts) = (\<lambda>n. toLowerCase (trim n)) ` {n \<in> set ns. trim n \<noteq> []}"
    using Cons.IH [OF c1] by blast
  have run: "findOrCreateTags d (n # ns) = Inr (r # ts, d2)" using s1 s2 by simp
  have sub: "set (nonNull (r # ts)) \<subseteq> set (tags_tbl d2)"
  proof (cases "trim n = []")
    case True
    then show ?thesis using e1 r2 by (simp add: nonNull_simps)
  next
    case False
    then obtain x where "r = Some x" "x \<in> set (tags_tbl d1)" using n1 by blast
    then show ?thesis using r2 m2 by (auto simp: nonNull_simps)
  qed
  have names: "tag_name ` set (nonNull (r # ts))
                 = (\<lambda>n. toLowerCase (trim n)) ` {m \<in> set (n # ns). trim m \<noteq> []}"
  proof (cases "trim n = []")
    case True
    then have "{m \<in> set (n # ns). trim m \<noteq> []} = {m \<in> set ns. trim m \<noteq> []}" by auto
    then show ?thesis using True e1 n2 by (simp add: nonNull_simps)
  next
    case False
    then obtain x where x: "r = Some x" "tag_name x = toLowerCase (trim n)" using n1 by blast
    have "{m \<in> set (n # ns). trim m \<noteq> []} = insert n {m \<in> set ns. trim m \<noteq> []}"
      using False by auto
    then show ?thesis using x n2 by (simp add: nonNull_simps)
  qed
  show ?case
    using run c2 f1 f2 m1 m2 sub names by (intro exI [of _ "r # ts"] exI [of _ d2]) auto
qed

lemma getTagsForTask_set:
  "set (getTagsForTask d i) = {t \<in> set (tags_tbl d). (i, tag_id t) \<in> set (task_tags_tbl d)}"
  by (auto simp: getTagsForTask_def)


lemma addTagsToTask_replaces:
  assumes can: "tagsCanonical d"
    and owned: "find (\<lambda>t. task_id t = i \<and> userId t = uid) (tasks_tbl d) = Some r"
    and cleared: "\<forall>tt \<in> set (task_tags_tbl d). fst tt \<noteq> i"
    and ne: "ns \<noteq> []"
  shows "\<exists>d'. addTagsToTask d i ns uid = Inr d' \<and> tasks_tbl d' = tasks_tbl d
           \<and> tag_name ` set (getTagsForTask d' i)
               = (\<lambda>n. toLowerCase (trim n)) ` {n \<in> set ns. trim n \<noteq> []}"
proof -
  obtain ts d1 where s: "findOrCreateTags d ns = Inr (ts, d1)" and c1: "tagsCanonical d1"
    and f: "tasks_tbl d1 = tasks_tbl d" "task_tags_tbl d1 = task_tags_tbl d"
    and sub: "set (nonNull ts) \<subseteq> set (tags_tbl d1)"
    and names: "tag_name ` set (nonNull ts)
                  = (\<lambda>n. toLowerCase (trim n)) ` {n \<in> set ns. trim n \<noteq> []}"
    using findOrCreateTags_resolves [OF can, of ns] by blast
  let ?d' = "fold (\<lambda>t. insertOrIgnoreTaskTag i (tag_id t)) (nonNull ts) d1"
  have run: "addTagsToTask d i ns uid = Inr ?d'"
    using ne owned s by (simp add: addTagsToTask_def nonNull_def)
  have tt: "set (task_tags_tbl ?d') = set (task_tags_tbl d) \<union> (\<lambda>t. (i, tag_id t)) ` set (nonNull ts)"
    using fold_insertOrIgnore_set [of i "nonNull ts" d1] f by simp
  have tg: "tags_tbl ?d' = tags_tbl d1" and tk: "tasks_tbl ?d' = tasks_tbl d"
    using fold_insertOrIgnore_frame [of i "nonNull ts" d1] f by simp_all
  have inj: "inj_on tag_id (set (tags_tbl d1))"
    using c1 by (simp add: tagsCanonical_def distinct_map)
  have "set (getTagsForTask ?d' i) = set (nonNull ts)"
  proof
    show "set (getTagsForTask ?d' i) \<subseteq> set (nonNull ts)"
    proof
      fix t assume "t \<in> set (getTagsForTask ?d' i)"
      then have mem: "t \<in> set (tags_tbl d1)" and pair: "(i, tag_id t) \<in> set (task_tags_tbl ?d')"
        by (simp_all add: getTagsForTask_set tg)
      from pair cleared have "(i, tag_id t) \<in> (\<lambda>t. (i, tag_id t)) ` set (nonNull ts)"
        unfolding tt by auto
      then obtain x where x: "x \<in> set (nonNull ts)" "tag_id x = tag_id t" by auto
      then have "x \<in> set (tags_tbl d1)" using sub by blast
      then have "x = t" using inj mem x(2) by (simp add: inj_on_def)
      then show "t \<in> set (nonNull ts)" using x(1) by simp
    qed
  next
    show "set (nonNull ts) \<subseteq> set (getTagsForTask ?d' i)"
      using sub by (auto simp: getTagsForTask_set tg tt)
  qed
  then show ?thesis using run tk names by simp
qed

lemma updateTaskRow_frame:
  "tags_tbl (updateTaskRow d i uid ti de co now) = tags_tbl d"
  "task_tags_tbl (updateTaskRow d i uid ti de co now) = task_tags_tbl d"
  by (simp_all add: updateTaskRow_def)

lemma clearTagsForTask_frame:
  "tasks_tbl (clearTagsForTask d i) = tasks_tbl d"
  "tags_tbl (clearTagsForTask d i) = tags_tbl d"
  "\<forall>tt \<in> set (task_tags_tbl (clearTagsForTask d i)). fst tt \<noteq> i"
  by (simp_all add: clearTagsForTask_def)

lemma getTagsForTask_cleared: "getTagsForTask (clearTagsForTask d i) i = []"
proof -
  have "set (getTagsForTask (clearTagsForTask d i) i) = {}"
    using clearTagsForTask_frame(3) [of d i] by (auto simp: getTagsForTask_set)
  then show ?thesis by simp
qed

lemma getTaskById_found:
  assumes "find (\<lambda>t. task_id t = i \<and> userId t = uid) (tasks_tbl d) = Some r"
  shows "getTaskById d i uid = Some (transformTaskFromDb r (getTagsForTask d i))"
proof -
  have "task_id r = i" using assms by (auto simp: find_Some_iff)
  then show ?thesis using assms by (simp add: getTaskById_def)
qed

text \<open>
  The shape of a successful update: the row the caller owns is rewritten with the new
  columns, and the task returned is that row with the tags the final state gives it.
\<close>

lemma updateTask_owned:
  assumes owned: "find (\<lambda>t. task_id t = i \<and> userId t = uid) (tasks_tbl d) = Some r"
  shows "\<exists>d'. updateTask d now i upd uid =
                Inr (Some (transformTaskFromDb
                             (r\<lparr>title := (case upd_title upd of Some x \<Rightarrow> x | None \<Rightarrow> title r),
                                description := (case upd_description upd of Some x \<Rightarrow> x
                                                | None \<Rightarrow> description r),
                                completed := (if (case upd_completed upd of Some x \<Rightarrow> x
                                                  | None \<Rightarrow> completed r = 1) then 1 else 0),
                                updatedAt := now\<rparr>)
                             (getTagsForTask d' i)), d')
              \<and> (upd_tags upd = None \<longrightarrow>
                    tags_tbl d' = tags_tbl d \<and> task_tags_tbl d' = task_tags_tbl d)
              \<and> (\<forall>ns. upd_tags upd = Some ns \<longrightarrow> tagsCanonical d \<longrightarrow>
                    tag_name ` set (getTagsForTask d' i)
                      = (\<lambda>n. toLowerCase (trim n)) ` {n \<in> set ns. trim n \<noteq> []})"
proof -
  let ?ti = "case upd_title upd of Some x \<Rightarrow> x | None \<Rightarrow> title r"
  let ?de = "case upd_description upd of Some x \<Rightarrow> x | None \<Rightarrow> description r"
  let ?co = "case upd_completed upd of Some x \<Rightarrow> x | None \<Rightarrow> completed r = 1"
  let ?r' = "r\<lparr>title := ?ti, description := ?de, completed := (if ?co then 1 else 0),
               updatedAt := now\<rparr>"
  let ?d1 = "updateTaskRow d i uid ?ti ?de ?co now"
  have ex: "getTaskById d i uid = Some (transformTaskFromDb r (getTagsForTask d i))"
    using owned by (rule getTaskById_found)
  have f1: "find (\<lambda>t. task_id t = i \<and> userId t = uid) (tasks_tbl ?d1) = Some ?r'"
    using owned by (rule find_updateTaskRow)
  let ?t = "transformTaskFromDb r (getTagsForTask d i)"
  have ti: "(case upd_title upd of Some x \<Rightarrow> x | None \<Rightarrow> task_title ?t) = ?ti"
    by (simp add: transformTaskFromDb_def split: option.split)
  have de: "(case upd_description upd of Some x \<Rightarrow> x | None \<Rightarrow> task_description ?t) = ?de"
    by (simp add: transformTaskFromDb_def split: option.split)
  have co: "(case upd_completed upd of Some x \<Rightarrow> x | None \<Rightarrow> task_completed ?t) = ?co"
    by (simp add: transformTaskFromDb_def split: option.split)
  have start: "updateTask d now i upd uid =
      (case upd_tags upd of
         None \<Rightarrow> Inr (getTaskById ?d1 i uid, ?d1)
       | Some newTags \<Rightarrow>
           (let d2 = clearTagsForTask ?d1 i
            in if newTags \<noteq> []
               then (case addTagsToTask d2 i newTags uid of
                       Inl e \<Rightarrow> Inl e
                     | Inr d3 \<Rightarrow> Inr (getTaskById d3 i uid, d3))
               else Inr (getTaskById d2 i uid, d2)))"
    by (simp add: updateTask_def ex ti de co Let_def)
  show ?thesis
  proof (cases "upd_tags upd")
    case None
    have "updateTask d now i upd uid = Inr (getTaskById ?d1 i uid, ?d1)"
      using start None by simp
    moreover have "getTaskById ?d1 i uid = Some (transformTaskFromDb ?r' (getTagsForTask ?d1 i))"
      using f1 by (rule getTaskById_found)
    ultimately show ?thesis using None
      by (intro exI [of _ ?d1]) (simp add: updateTaskRow_frame)
  next
    case (Some ns)
    let ?d2 = "clearTagsForTask ?d1 i"
    have f2: "find (\<lambda>t. task_id t = i \<and> userId t = uid) (tasks_tbl ?d2) = Some ?r'"
      using f1 by (simp add: clearTagsForTask_frame)
    show ?thesis
    proof (cases "ns = []")
      case True
      have "updateTask d now i upd uid = Inr (getTaskById ?d2 i uid, ?d2)"
        using start Some True by (simp add: Let_def)
      moreover have "getTaskById ?d2 i uid = Some (transformTaskFromDb ?r' (getTagsForTask ?d2 i))"
        using f2 by (rule getTaskById_found)
      ultimately show ?thesis using Some True
        by (intro exI [of _ ?d2]) (simp add: getTagsForTask_cleared)
    next
      case False
      obtain d3 where run: "addTagsToTask ?d2 i ns uid = Inr d3"
        and tk: "tasks_tbl d3 = tasks_tbl ?d2"
        using addTagsToTask_frame [of ?d2 i ns uid] by blast
      have res: "updateTask d now i upd uid = Inr (getTaskById d3 i uid, d3)"
        using start Some False run by (simp add: Let_def)
      have "find (\<lambda>t. task_id t = i \<and> userId t = uid) (tasks_tbl d3) = Some ?r'"
        using f2 tk by simp
      then have got: "getTaskById d3 i uid = Some (transformTaskFromDb ?r' (getTagsForTask d3 i))"
        by (rule getTaskById_found)
      have names: "tagsCanonical d \<longrightarrow>
                     tag_name ` set (getTagsForTask d3 i)
                       = (\<lambda>n. toLowerCase (trim n)) ` {n \<in> set ns. trim n \<noteq> []}"
      proof
        assume "tagsCanonical d"
        then have can: "tagsCanonical ?d2"
          by (simp add: tagsCanonical_def clearTagsForTask_frame updateTaskRow_frame)
        obtain d4 where r4: "addTagsToTask ?d2 i ns uid = Inr d4"
          and n4: "tag_name ` set (getTagsForTask d4 i)
                     = (\<lambda>n. toLowerCase (trim n)) ` {n \<in> set ns. trim n \<noteq> []}"
          using addTagsToTask_replaces [OF can f2 clearTagsForTask_frame(3) False] by blast
        have "d4 = d3" using run r4 by simp
        then show "tag_name ` set (getTagsForTask d3 i)
                     = (\<lambda>n. toLowerCase (trim n)) ` {n \<in> set ns. trim n \<noteq> []}"
          using n4 by simp
      qed
      show ?thesis using res got names Some
        by (intro exI [of _ d3]) simp
    qed
  qed
qed

lemma fold_insertOrIgnore_others:
  "filter (\<lambda>tt. fst tt \<noteq> i) (task_tags_tbl (fold (\<lambda>t. insertOrIgnoreTaskTag i (tag_id t)) xs d))
     = filter (\<lambda>tt. fst tt \<noteq> i) (task_tags_tbl d)"
  by (induction xs arbitrary: d) (simp_all add: insertOrIgnoreTaskTag_def)

lemma addTagsToTask_others:
  assumes "addTagsToTask d i ns uid = Inr d'"
  shows "filter (\<lambda>tt. fst tt \<noteq> i) (task_tags_tbl d') = filter (\<lambda>tt. fst tt \<noteq> i) (task_tags_tbl d)"
proof (cases "ns = [] \<or> find (\<lambda>t. task_id t = i \<and> userId t = uid) (tasks_tbl d) = None")
  case True
  then have "d' = d" using assms by (auto simp: addTagsToTask_def split: if_splits)
  then show ?thesis by simp
next
  case False
  then obtain r where ne: "ns \<noteq> []"
    and r: "find (\<lambda>t. task_id t = i \<and> userId t = uid) (tasks_tbl d) = Some r"
    by auto
  obtain ts d1 where s: "findOrCreateTags d ns = Inr (ts, d1)"
    and f: "task_tags_tbl d1 = task_tags_tbl d"
    using findOrCreateTags_frame [of d ns] by blast
  have "d' = fold (\<lambda>t. insertOrIgnoreTaskTag i (tag_id t)) (nonNull ts) d1"
    using assms ne r s by (simp add: addTagsToTask_def)
  then show ?thesis using fold_insertOrIgnore_others [of i "nonNull ts" d1] f by simp
qed

lemma clearTagsForTask_others:
  "filter (\<lambda>tt. fst tt \<noteq> i) (task_tags_tbl (clearTagsForTask d i))
     = filter (\<lambda>tt. fst tt \<noteq> i) (task_tags_tbl d)"
  by (simp add: clearTagsForTask_def)

lemma filter_others_map_update:
  assumes "\<And>x. P x \<Longrightarrow> P (f x)"
  shows "filter (\<lambda>x. \<not> P x) (map (\<lambda>x. if P x then f x else x) xs) = filter (\<lambda>x. \<not> P x) xs"
  using assms by (induction xs) simp_all

lemma updateTaskRow_others:
  "filter (\<lambda>t. \<not> (task_id t = i \<and> userId t = uid)) (tasks_tbl (updateTaskRow d i uid ti de co now))
     = filter (\<lambda>t. \<not> (task_id t = i \<and> userId t = uid)) (tasks_tbl d)"
proof -
  have tbl: "tasks_tbl (updateTaskRow d i uid ti de co now)
               = map (\<lambda>t. if task_id t = i \<and> userId t = uid
                          then t\<lparr>title := ti, description := de,
                                 completed := (if co then 1 else 0), updatedAt := now\<rparr>
                          else t) (tasks_tbl d)"
    by (simp add: updateTaskRow_def)
  show ?thesis
    unfolding tbl
    by (rule filter_others_map_update [where P = "\<lambda>t. task_id t = i \<and> userId t = uid"]) simp
qed

text \<open>
  What a successful update leaves in the store: the row of the task carries the new
  columns, every other row and the associations of every other task are as before.
\<close>

lemma updateTask_stored:
  assumes owned: "find (\<lambda>t. task_id t = i \<and> userId t = uid) (tasks_tbl d) = Some r"
    and run: "updateTask d now i upd uid = Inr (res, d')"
  shows "find (\<lambda>t. task_id t = i \<and> userId t = uid) (tasks_tbl d')
           = Some (r\<lparr>title := (case upd_title upd of Some x \<Rightarrow> x | None \<Rightarrow> title r),
                     description := (case upd_description upd of Some x \<Rightarrow> x
                                     | None \<Rightarrow> description r),
                     completed := (if (case upd_completed upd of Some x \<Rightarrow> x
                                       | None \<Rightarrow> completed r = 1) then 1 else 0),
                     updatedAt := now\<rparr>)"
    and "res = getTaskById d' i uid"
    and "filter (\<lambda>t. \<not> (task_id t = i \<and> userId t = uid)) (tasks_tbl d')
           = filter (\<lambda>t. \<not> (task_id t = i \<and> userId t = uid)) (tasks_tbl d)"
    and "filter (\<lambda>tt. fst tt \<noteq> i) (task_tags_tbl d') = filter (\<lambda>tt. fst tt \<noteq> i) (task_tags_tbl d)"
proof -
  let ?ti = "case upd_title upd of Some x \<Rightarrow> x | None \<Rightarrow> title r"
  let ?de = "case upd_description upd of Some x \<Rightarrow> x | None \<Rightarrow> description r"
  let ?co = "case upd_completed upd of Some x \<Rightarrow> x | None \<Rightarrow> completed r = 1"
  let ?r' = "r\<lparr>title := ?ti, description := ?de, completed := (if ?co then 1 else 0),
               updatedAt := now\<rparr>"
  let ?d1 = "updateTaskRow d i uid ?ti ?de ?co now"
  let ?P = "\<lambda>t. task_id t = i \<and> userId t = uid"
  let ?t = "transformTaskFromDb r (getTagsForTask d i)"
  have ex: "getTaskById d i uid = Some ?t" using owned by (rule getTaskById_found)
  have f1: "find ?P (tasks_tbl ?d1) = Some ?r'" using owned by (rule find_updateTaskRow)
  have o1: "filter (\<lambda>t. \<not> ?P t) (tasks_tbl ?d1) = filter (\<lambda>t. \<not> ?P t) (tasks_tbl d)"
    by (rule updateTaskRow_others)
  have ti: "(case upd_title upd of Some x \<Rightarrow> x | None \<Rightarrow> task_title ?t) = ?ti"
    by (simp add: transformTaskFromDb_def split: option.split)
  have de: "(case upd_description upd of Some x \<Rightarrow> x | None \<Rightarrow> task_description ?t) = ?de"
    by (simp add: transformTaskFromDb_def split: option.split)
  have co: "(case upd_completed upd of Some x \<Rightarrow> x | None \<Rightarrow> task_completed ?t) = ?co"
    by (simp add: transformTaskFromDb_def split: option.split)
  have start: "updateTask d now i upd uid =
      (case upd_tags upd of
         None \<Rightarrow> Inr (getTaskById ?d1 i uid, ?d1)
       | Some newTags \<Rightarrow>
           (let d2 = clearTagsForTask ?d1 i
            in if newTags \<noteq> []
               then (case addTagsToTask d2 i newTags uid of
                       Inl e \<Rightarrow> Inl e
                     | Inr d3 \<Rightarrow> Inr (getTaskById d3 i uid, d3))
               else Inr (getTaskById d2 i uid, d2)))"
    by (simp add: updateTask_def ex ti de co Let_def)
  have all: "find ?P (tasks_tbl d') = Some ?r' \<and> res = getTaskById d' i uid
             \<and> filter (\<lambda>t. \<not> ?P t) (tasks_tbl d') = filter (\<lambda>t. \<not> ?P t) (tasks_tbl d)
             \<and> filter (\<lambda>tt. fst tt \<noteq> i) (task_tags_tbl d')
                 = filter (\<lambda>tt. fst tt \<noteq> i) (task_tags_tbl d)"
  proof (cases "upd_tags upd")
    case None
    then have "res = getTaskById ?d1 i uid" "d' = ?d1" using start run by simp_all
    then show ?thesis using f1 o1 by (simp add: updateTaskRow_frame)
  next
    case (Some ns)
    let ?d2 = "clearTagsForTask ?d1 i"
    have f2: "find ?P (tasks_tbl ?d2) = Some ?r'" using f1 by (simp add: clearTagsForTask_frame)
    have o2: "filter (\<lambda>t. \<not> ?P t) (tasks_tbl ?d2) = filter (\<lambda>t. \<not> ?P t) (tasks_tbl d)"
      using o1 by (simp add: clearTagsForTask_frame)
    have a2: "filter (\<lambda>tt. fst tt \<noteq> i) (task_tags_tbl ?d2)
                = filter (\<lambda>tt. fst tt \<noteq> i) (task_tags_tbl d)"
      by (simp add: clearTagsForTask_others updateTaskRow_frame)
    show ?thesis
    proof (cases "ns = []")
      case True
      then have "res = getTaskById ?d2 i uid" "d' = ?d2"
        using start run Some by (simp_all add: Let_def)
      then show ?thesis using f2 o2 a2 by simp
    next
      case False
      obtain d3 where add: "addTagsToTask ?d2 i ns uid = Inr d3"
        and tk: "tasks_tbl d3 = tasks_tbl ?d2"
        using addTagsToTask_frame [of ?d2 i ns uid] by blast
      have eq: "res = getTaskById d3 i uid" "d' = d3"
        using start run Some False add by (simp_all add: Let_def)
      have a3: "filter (\<lambda>tt. fst tt \<noteq> i) (task_tags_tbl d3)
                  = filter (\<lambda>tt. fst tt \<noteq> i) (task_tags_tbl ?d2)"
        using add by (rule addTagsToTask_others)
      show ?thesis using eq f2 o2 a2 a3 tk by simp
    qed
  qed
  show "find ?P (tasks_tbl d') = Some ?r'" using all by simp
  show "res = getTaskById d' i uid" using all by simp
  show "filter (\<lambda>t. \<not> ?P t) (tasks_tbl d') = filter (\<lambda>t. \<not> ?P t) (tasks_tbl d)"
    using all by simp
  show "filter (\<lambda>tt. fst tt \<noteq> i) (task_tags_tbl d') = filter (\<lambda>tt. fst tt \<noteq> i) (task_tags_tbl d)"
    using all by simp
qed



text \<open>
  Claim C5, as the code has it.  A successful update of a task the caller owns stores the
  reading of the wall clock taken during the update, \<open>new Date().toISOString()\<close>, as
  \<open>updatedAt\<close>.  So the new \<open>updatedAt\<close> is greater than the one before exactly when
  that reading is later than the one stored before; nothing in \<open>updateTask\<close> makes the
  clock advance between two updates.  The task returned is the task as the store holds it
  afterwards.
\<close>

theorem updateTask_updatedAt_is_clock:
  assumes "getTaskById d i uid = Some t"
  shows "case updateTask d now i upd uid of
           Inr (Some t', d') \<Rightarrow>
             task_updatedAt t' = now
             \<and> (task_updatedAt t < task_updatedAt t') = (task_updatedAt t < now)
             \<and> getTaskById d' i uid = Some t'
         | _ \<Rightarrow> False"
proof -
  obtain r where owned: "find (\<lambda>t. task_id t = i \<and> userId t = uid) (tasks_tbl d) = Some r"
    using getTaskById_Some [OF assms] by blast
  let ?r' = "r\<lparr>title := (case upd_title upd of Some x \<Rightarrow> x | None \<Rightarrow> title r),
               description := (case upd_description upd of Some x \<Rightarrow> x
                               | None \<Rightarrow> description r),
               completed := (if (case upd_completed upd of Some x \<Rightarrow> x
                                 | None \<Rightarrow> completed r = 1) then 1 else 0),
               updatedAt := now\<rparr>"
  obtain d' where run: "updateTask d now i upd uid =
      Inr (Some (transformTaskFromDb ?r' (getTagsForTask d' i)), d')"
    using updateTask_owned [OF owned, of now upd] by (elim exE conjE) (rule that)
  have readback: "getTaskById d' i uid = Some (transformTaskFromDb ?r' (getTagsForTask d' i))"
    using updateTask_stored(2) [OF owned run] by simp
  show ?thesis unfolding run using readback by (simp add: transformTaskFromDb_def)
qed

theorem updateTask_updatedAt_is_clock_witness:
  "getTaskById exampleDb 1 1 =
       Some \<lparr>tid = 1, task_title = ''first'', task_description = [], task_completed = False,
             task_createdAt = 100, task_updatedAt = 100, task_userId = 1,
             tags = [\<lparr>tag_id = 1, tag_name = ''a''\<rparr>, \<lparr>tag_id = 2, tag_name = ''b''\<rparr>]\<rparr>
   \<and> (case updateTask exampleDb 500 1 exampleUpdate 1 of
         Inr (Some t', d') \<Rightarrow> task_updatedAt t' = 500 \<and> 100 < task_updatedAt t'
       | _ \<Rightarrow> False)"
proof -
  let ?t = "\<lparr>tid = 1, task_title = ''first'', task_description = [], task_completed = False,
             task_createdAt = 100, task_updatedAt = 100, task_userId = 1,
             tags = [\<lparr>tag_id = 1, tag_name = ''a''\<rparr>, \<lparr>tag_id = 2, tag_name = ''b''\<rparr>]\<rparr>"
  have h: "getTaskById exampleDb 1 1 = Some ?t" by code_simp
  have "case updateTask exampleDb 500 1 exampleUpdate 1 of
         Inr (Some t', d') \<Rightarrow> task_updatedAt t' = 500 \<and> 100 < task_updatedAt t'
       | _ \<Rightarrow> False"
    using updateTask_updatedAt_is_clock [OF h, where now = 500 and upd = exampleUpdate]
    by (simp split: sum.splits option.splits prod.splits)
  then show ?thesis using h by simp
qed

text \<open>
  The claim C5 as stated asks for a strictly greater \<open>updatedAt\<close> after every update.
  Two updates of task 1 of the example that read the same millisecond, 500, off the clock:
  both succeed, and the second leaves \<open>updatedAt\<close> equal to what the first stored.
\<close>

theorem updateTask_updatedAt_counterexample:
  "(case updateTask exampleDb 500 1 (noUpdate\<lparr>upd_completed := Some True\<rparr>) 1 of
      Inr (Some t1, d1) \<Rightarrow>
        (case updateTask d1 500 1 (noUpdate\<lparr>upd_title := Some ''again''\<rparr>) 1 of
           Inr (Some t2, d2) \<Rightarrow>
             task_updatedAt t1 = 500 \<and> task_updatedAt t2 = 500
             \<and> \<not> task_updatedAt t1 < task_updatedAt t2
         | _ \<Rightarrow> False)
    | _ \<Rightarrow> False)"
  by code_simp

subsection \<open>The constraints of the schema under \<open>updateTask\<close>\<close>

lemma addTagsToTask_keeps_tagsCanonical:
  assumes "tagsCanonical d" and "addTagsToTask d i ns uid = Inr d'"
  shows "tagsCanonical d'"
proof (cases "ns = [] \<or> find (\<lambda>t. task_id t = i \<and> userId t = uid) (tasks_tbl d) = None")
  case True
  then have "d' = d" using assms(2) by (auto simp: addTagsToTask_def split: if_splits)
  then show ?thesis using assms(1) by simp
next
  case False
  then obtain r where ne: "ns \<noteq> []"
    and r: "find (\<lambda>t. task_id t = i \<and> userId t = uid) (tasks_tbl d) = Some r"
    by auto
  obtain ts d1 where s: "findOrCreateTags d ns = Inr (ts, d1)" and c1: "tagsCanonical d1"
    using findOrCreateTags_resolves [OF assms(1), of ns] by blast
  have "d' = fold (\<lambda>t. insertOrIgnoreTaskTag i (tag_id t)) (nonNull ts) d1"
    using assms(2) ne r s by (simp add: addTagsToTask_def)
  then have "tags_tbl d' = tags_tbl d1"
    using fold_insertOrIgnore_frame [of i "nonNull ts" d1] by simp
  then show ?thesis using c1 by (simp add: tagsCanonical_def)
qed

lemma updateTask_keeps_constraints:
  assumes "updateTask d now i upd uid = Inr (res, d')"
  shows "(tagsCanonical d \<longrightarrow> tagsCanonical d') \<and> (tasksKeyed d \<longrightarrow> tasksKeyed d')"
proof (cases "find (\<lambda>t. task_id t = i \<and> userId t = uid) (tasks_tbl d)")
  case None
  then have "d' = d" using assms by (simp add: updateTask_def getTaskById_def)
  then show ?thesis by simp
next
  case (Some r)
  let ?ti = "case upd_title upd of Some x \<Rightarrow> x | None \<Rightarrow> title r"
  let ?de = "case upd_description upd of Some x \<Rightarrow> x | None \<Rightarrow> description r"
  let ?co = "case upd_completed upd of Some x \<Rightarrow> x | None \<Rightarrow> completed r = 1"
  let ?d1 = "updateTaskRow d i uid ?ti ?de ?co now"
  have keys: "map task_id (tasks_tbl ?d1) = map task_id (tasks_tbl d)"
    by (simp add: updateTaskRow_def comp_def)
  have k1: "tasksKeyed d \<longrightarrow> tasksKeyed ?d1" by (simp add: tasksKeyed_def keys)
  have c1: "tagsCanonical d \<longrightarrow> tagsCanonical ?d1"
    by (simp add: tagsCanonical_def updateTaskRow_frame)
  let ?t = "transformTaskFromDb r (getTagsForTask d i)"
  have ex: "getTaskById d i uid = Some ?t" using Some by (rule getTaskById_found)
  have ti: "(case upd_title upd of Some x \<Rightarrow> x | None \<Rightarrow> task_title ?t) = ?ti"
    by (simp add: transformTaskFromDb_def split: option.split)
  have de: "(case upd_description upd of Some x \<Rightarrow> x | None \<Rightarrow> task_description ?t) = ?de"
    by (simp add: transformTaskFromDb_def split: option.split)
  have co: "(case upd_completed upd of Some x \<Rightarrow> x | None \<Rightarrow> task_completed ?t) = ?co"
    by (simp add: transformTaskFromDb_def split: option.split)
  show ?thesis
  proof (cases "upd_tags upd")
    case None
    then have "d' = ?d1" using assms by (simp add: updateTask_def ex ti de co Let_def)
    then show ?thesis using k1 c1 by simp
  next
    case (Some ns)
    let ?d2 = "clearTagsForTask ?d1 i"
    have k2: "tasksKeyed d \<longrightarrow> tasksKeyed ?d2"
      using k1 by (simp add: tasksKeyed_def clearTagsForTask_frame)
    have c2: "tagsCanonical d \<longrightarrow> tagsCanonical ?d2"
      using c1 by (simp add: tagsCanonical_def clearTagsForTask_frame)
    show ?thesis
    proof (cases "ns = []")
      case True
      then have "d' = ?d2" using assms Some by (simp add: updateTask_def ex ti de co Let_def)
      then show ?thesis using k2 c2 by simp
    next
      case False
      obtain d3 where run: "addTagsToTask ?d2 i ns uid = Inr d3"
        and tk: "tasks_tbl d3 = tasks_tbl ?d2"
        using addTagsToTask_frame [of ?d2 i ns uid] by blast
      have "d' = d3" using assms Some False run by (simp add: updateTask_def ex ti de co Let_def)
      moreover have "tasksKeyed d \<longrightarrow> tasksKeyed d3" using k2 tk by (simp add: tasksKeyed_def)
      moreover have "tagsCanonical d \<longrightarrow> tagsCanonical d3"
        using c2 addTagsToTask_keeps_tagsCanonical [OF _ run] by blast
      ultimately show ?thesis by simp
    qed
  qed
qed

section \<open>Properties of \<open>getAllTasks\<close>\<close>

subsection \<open>Sorting keeps the rows\<close>

lemma length_insertBy: "length (insertBy le x xs) = Suc (length xs)"
  by (induction xs) simp_all

lemma length_orderBy: "length (orderBy le xs) = length xs"
  by (induction xs) (simp_all add: orderBy_def length_insertBy)

lemma set_insertBy: "set (insertBy le x xs) = insert x (set xs)"
  by (induction xs) auto

lemma set_orderBy: "set (orderBy le xs) = set xs"
  by (induction xs) (simp_all add: orderBy_def set_insertBy)

lemma length_applySort: "length (applySort opts xs) = length xs"
  by (simp add: applySort_def orderByField_def length_orderBy split: option.split)

lemma length_pageQuery: "length (pageQuery d uid opts) = length (selectTasks d uid opts)"
  by (simp add: pageQuery_def length_applySort)

subsection \<open>The count query against the page query\<close>

lemma remdups_map_inj_on:
  "inj_on f (set xs) \<Longrightarrow> remdups (map f xs) = map f (remdups xs)"
proof (induction xs)
  case Nil
  show ?case by simp
next
  case (Cons x xs)
  have inj: "inj_on f (set xs)" using Cons.prems by (simp add: inj_on_def)
  have "f x \<in> f ` set xs \<longleftrightarrow> x \<in> set xs"
    using Cons.prems by (auto simp: inj_on_def)
  then show ?case using Cons.IH [OF inj] by simp
qed

lemma joinTaskTags_tasks: "r \<in> set (joinTaskTags d) \<Longrightarrow> fst r \<in> set (tasks_tbl d)"
  by (auto simp: joinTaskTags_def)

lemma joinedRows_tasks: "r \<in> set (joinedRows d uid opts) \<Longrightarrow> fst r \<in> set (tasks_tbl d)"
  by (simp add: joinedRows_def joinTaskTags_tasks)

lemma tasksKeyed_inj: "tasksKeyed d \<Longrightarrow> inj_on task_id (set (tasks_tbl d))"
  by (simp add: tasksKeyed_def distinct_map)

lemma tasksKeyed_distinct: "tasksKeyed d \<Longrightarrow> distinct (tasks_tbl d)"
  by (simp add: tasksKeyed_def distinct_map)

lemma group_by_key:
  assumes "tasksKeyed d" and "g \<in> set (tasks_tbl d)"
  shows "filter (\<lambda>r. task_id (fst r) = task_id g) (joinedRows d uid opts)
           = filter (\<lambda>r. fst r = g) (joinedRows d uid opts)"
proof (rule filter_cong [OF refl])
  fix r assume "r \<in> set (joinedRows d uid opts)"
  then have "fst r \<in> set (tasks_tbl d)" by (rule joinedRows_tasks)
  then show "(task_id (fst r) = task_id g) = (fst r = g)"
    using tasksKeyed_inj [OF assms(1)] assms(2) by (auto simp: inj_on_def)
qed

lemma countTasks_selectTasks:
  assumes keyed: "tasksKeyed d"
    and mode: "tagNamesToFilter opts = [] \<or> tagMatchMode opts = ''all'' \<or> tagMatchMode opts = ''any''"
  shows "countTasks d uid opts = length (selectTasks d uid opts)"
proof (cases "tagNamesToFilter opts = []")
  case True
  have "distinct (filter (whereTask uid opts) (tasks_tbl d))"
    using tasksKeyed_distinct [OF keyed] by simp
  then show ?thesis using True by (simp add: countTasks_def selectTasks_def distinct_remdups_id)
next
  case False
  let ?rows = "joinedRows d uid opts"
  let ?n = "length (tagNamesToFilter opts)"
  have sub: "set (map fst ?rows) \<subseteq> set (tasks_tbl d)"
    using joinedRows_tasks [of _ d uid opts] by auto
  have inj: "inj_on task_id (set (map fst ?rows))"
    using tasksKeyed_inj [OF keyed] sub by (rule inj_on_subset)
  have keys: "remdups (map (\<lambda>r. task_id (fst r)) ?rows) = map task_id (remdups (map fst ?rows))"
    using remdups_map_inj_on [OF inj] by (simp add: comp_def)
  show ?thesis
  proof (cases "tagMatchMode opts = ''all''")
    case all: True
    let ?H = "\<lambda>g. countDistinctNames (filter (\<lambda>r. fst r = g) ?rows) = ?n"
    let ?H' = "\<lambda>i. countDistinctNames (filter (\<lambda>r. task_id (fst r) = i) ?rows) = ?n"
    have agree: "filter (\<lambda>g. ?H' (task_id g)) (remdups (map fst ?rows))
                   = filter ?H (remdups (map fst ?rows))"
    proof (rule filter_cong [OF refl])
      fix g assume "g \<in> set (remdups (map fst ?rows))"
      then have "g \<in> set (tasks_tbl d)" using sub by auto
      then show "?H' (task_id g) = ?H g" using group_by_key [OF keyed] by simp
    qed
    have "countTasks d uid opts = length (filter ?H' (map task_id (remdups (map fst ?rows))))"
      using False all by (simp add: countTasks_def keys Let_def)
    also have "\<dots> = length (filter (\<lambda>g. ?H' (task_id g)) (remdups (map fst ?rows)))"
      by (simp add: filter_map comp_def)
    also have "\<dots> = length (filter ?H (remdups (map fst ?rows)))"
      by (simp only: agree)
    also have "\<dots> = length (remdups (filter ?H (remdups (map fst ?rows))))"
      by (simp add: distinct_remdups_id)
    also have "\<dots> = length (selectTasks d uid opts)"
      using False all by (simp add: selectTasks_def Let_def)
    finally show ?thesis .
  next
    case notall: False
    then have any: "tagMatchMode opts = ''any''" using mode False by simp
    have "countTasks d uid opts = length (map task_id (remdups (map fst ?rows)))"
      using False any by (simp add: countTasks_def keys Let_def)
    also have "\<dots> = length (selectTasks d uid opts)"
      using False any by (simp add: selectTasks_def Let_def)
    finally show ?thesis .
  qed
qed

subsection \<open>Pages\<close>

lemma min_step: "min n m + min L (n - m) = min (n::nat) (m + L)"
  by (cases "n \<le> m") (auto simp: min_def)

lemma pages_cover:
  "(\<Sum>p\<leftarrow>[1..int k]. int (length (take L (drop (nat (p - 1) * L) xs))))
           = int (min (length xs) (k * L))"
proof (induction k)
  case 0
  show ?case by simp
next
  case (Suc k)
  have "[1..int (Suc k)] = [1..int k] @ [int (Suc k)]"
    using upto_rec2 [of 1 "int (Suc k)"] by simp
  then have "(\<Sum>p\<leftarrow>[1..int (Suc k)]. int (length (take L (drop (nat (p - 1) * L) xs))))
               = int (min (length xs) (k * L)) + int (min L (length xs - k * L))"
    using Suc.IH by simp
  also have "\<dots> = int (min (length xs) (k * L) + min L (length xs - k * L))"
    by simp
  also have "\<dots> = int (min (length xs) (k * L + L))"
    by (simp only: min_step)
  also have "\<dots> = int (min (length xs) (Suc k * L))"
    by (simp add: add.commute)
  finally show ?case .
qed

lemma int_div_mult_le: "0 < (b::int) \<Longrightarrow> a div b * b \<le> a"
proof -
  assume b: "0 < b"
  have "b * (a div b) + a mod b = a" by simp
  moreover have "0 \<le> a mod b" using b by (rule pos_mod_sign)
  ultimately have "b * (a div b) \<le> a" by linarith
  then show ?thesis by (simp add: mult.commute)
qed

lemma ceilDiv_covers:
  assumes "0 < b" and "0 \<le> a"
  shows "0 \<le> ceilDiv a b" and "a \<le> ceilDiv a b * b"
proof -
  have "(- a) div b \<le> 0" using assms by (metis div_0 zdiv_mono1 neg_le_0_iff_le)
  then show "0 \<le> ceilDiv a b" by (simp add: ceilDiv_def)
  have "(- a) div b * b \<le> - a" using assms(1) by (rule int_div_mult_le)
  then show "a \<le> ceilDiv a b * b" by (simp add: ceilDiv_def)
qed

subsection \<open>The options a page does not depend on\<close>

lemma page_irrelevant_filters:
  "tagNamesToFilter (opts\<lparr>opt_page := p\<rparr>) = tagNamesToFilter opts"
  "tagMatchMode (opts\<lparr>opt_page := p\<rparr>) = tagMatchMode opts"
  "whereTask uid (opts\<lparr>opt_page := p\<rparr>) = whereTask uid opts"
  "applySort (opts\<lparr>opt_page := p\<rparr>) = applySort opts"
  by (simp_all add: tagNamesToFilter_def tagMatchMode_def whereTask_def applySort_def fun_eq_iff)

lemma page_irrelevant_rows:
  "joinedRows d uid (opts\<lparr>opt_page := p\<rparr>) = joinedRows d uid opts"
  by (simp add: joinedRows_def page_irrelevant_filters)

lemma page_irrelevant:
  "countTasks d uid (opts\<lparr>opt_page := p\<rparr>) = countTasks d uid opts"
  "pageQuery d uid (opts\<lparr>opt_page := p\<rparr>) = pageQuery d uid opts"
  by (simp_all add: countTasks_def pageQuery_def selectTasks_def page_irrelevant_filters
      page_irrelevant_rows Let_def)

lemma length_limitOffset:
  assumes "0 < l" and "1 \<le> p"
  shows "length (limitOffset l ((p - 1) * l) xs) = length (take (nat l) (drop (nat (p - 1) * nat l) xs))"
proof -
  have "nat ((p - 1) * l) = nat (p - 1) * nat l"
    using assms by (simp add: nat_mult_distrib)
  then show ?thesis using assms(1) by (simp add: limitOffset_def Let_def)
qed

lemma tasks_of_page:
  assumes "0 < parseIntOr (opt_limit opts) 10" and "1 \<le> p"
  shows "length (tasks (getAllTasks d uid (opts\<lparr>opt_page := Some p\<rparr>)))
           = length (take (nat (parseIntOr (opt_limit opts) 10))
                       (drop (nat (p - 1) * nat (parseIntOr (opt_limit opts) 10))
                          (pageQuery d uid opts)))"
proof -
  have p: "parseIntOr (Some p) 1 = p" using assms(2) by (simp add: parseIntOr_def)
  show ?thesis
    using length_limitOffset [OF assms, of "pageQuery d uid opts"]
    by (simp add: getAllTasks_def Let_def page_irrelevant p)
qed

lemma sum_list_cong_upto:
  assumes "\<And>p. 1 \<le> p \<Longrightarrow> f p = g p"
  shows "(\<Sum>p\<leftarrow>[1..k]. f p) = (\<Sum>p\<leftarrow>[1..k]. (g p :: int))"
proof -
  have "map f [1..k] = map g [1..k]" using assms by simp
  then show ?thesis by (simp only:)
qed

lemma limit_positive:
  assumes "\<forall>l. opt_limit opts = Some l \<longrightarrow> 0 \<le> l"
  shows "0 < parseIntOr (opt_limit opts) 10"
  using assms by (cases "opt_limit opts") (auto simp: parseIntOr_def)

lemma pages_sum_to_length:
  assumes lim: "\<forall>l. opt_limit opts = Some l \<longrightarrow> 0 \<le> l"
    and tot: "total (getAllTasks d uid opts) = int (length (pageQuery d uid opts))"
  shows "(\<Sum>p\<leftarrow>[1..totalPages (getAllTasks d uid opts)].
            int (length (tasks (getAllTasks d uid (opts\<lparr>opt_page := Some p\<rparr>)))))
         = total (getAllTasks d uid opts)"
proof -
  let ?l = "parseIntOr (opt_limit opts) 10"
  let ?xs = "pageQuery d uid opts"
  let ?K = "totalPages (getAllTasks d uid opts)"
  have l: "0 < ?l" using lim by (rule limit_positive)
  have K: "?K = ceilDiv (int (length ?xs)) ?l"
    using tot by (simp add: getAllTasks_def Let_def)
  have K0: "0 \<le> ?K" and cover: "int (length ?xs) \<le> ?K * ?l"
    unfolding K using ceilDiv_covers [OF l, of "int (length ?xs)"] by simp_all
  have "int (length ?xs) \<le> int (nat ?K * nat ?l)"
    using cover K0 l by (simp add: nat_mult_distrib)
  then have enough: "length ?xs \<le> nat ?K * nat ?l" by linarith
  have "(\<Sum>p\<leftarrow>[1..?K]. int (length (tasks (getAllTasks d uid (opts\<lparr>opt_page := Some p\<rparr>)))))
          = (\<Sum>p\<leftarrow>[1..?K]. int (length (take (nat ?l) (drop (nat (p - 1) * nat ?l) ?xs))))"
    by (rule sum_list_cong_upto) (simp add: tasks_of_page [OF l])
  also have "\<dots> = (\<Sum>p\<leftarrow>[1..int (nat ?K)].
                        int (length (take (nat ?l) (drop (nat (p - 1) * nat ?l) ?xs))))"
    using K0 by simp
  also have "\<dots> = int (min (length ?xs) (nat ?K * nat ?l))"
    by (rule pages_cover)
  also have "\<dots> = int (length ?xs)" using enough by simp
  finally show ?thesis using tot by simp
qed

text \<open>
  Claim C2.  On a \<open>tasks\<close> table keyed by \<open>id\<close>, for every user, every \<open>completed\<close>
  filter, every tag list with the match mode \<open>all\<close> or \<open>any\<close> (or no tag list) and every
  page size that is not negative (absent and 0 give 10), the total that \<open>getAllTasks\<close>
  returns is the number of rows of its page query before \<open>LIMIT\<close> and \<open>OFFSET\<close>, and the
  lengths of the pages 1 to \<open>totalPages\<close> add up to the total.
\<close>

theorem getAllTasks_count_consistent:
  assumes "tasksKeyed d"
    and "tagNamesToFilter opts = [] \<or> tagMatchMode opts = ''all'' \<or> tagMatchMode opts = ''any''"
    and "\<forall>l. opt_limit opts = Some l \<longrightarrow> 0 \<le> l"
  shows "total (getAllTasks d uid opts) = int (length (pageQuery d uid opts))
         \<and> (\<Sum>p\<leftarrow>[1..totalPages (getAllTasks d uid opts)].
              int (length (tasks (getAllTasks d uid (opts\<lparr>opt_page := Some p\<rparr>)))))
             = total (getAllTasks d uid opts)"
proof -
  have "countTasks d uid opts = length (selectTasks d uid opts)"
    using assms(1) assms(2) by (rule countTasks_selectTasks)
  then have tot: "total (getAllTasks d uid opts) = int (length (pageQuery d uid opts))"
    by (simp add: getAllTasks_def Let_def length_pageQuery)
  show ?thesis using tot pages_sum_to_length [OF assms(3) tot] by simp
qed

theorem getAllTasks_count_consistent_witness:
  "tasksKeyed exampleDb
   \<and> tagMatchMode pagedOptions = ''any''
   \<and> opt_limit pagedOptions = Some 1
   \<and> total (getAllTasks exampleDb 2 pagedOptions) = 2
   \<and> totalPages (getAllTasks exampleDb 2 pagedOptions) = 2
   \<and> int (length (tasks (getAllTasks exampleDb 2 (pagedOptions\<lparr>opt_page := Some 1\<rparr>))))
       + int (length (tasks (getAllTasks exampleDb 2 (pagedOptions\<lparr>opt_page := Some 2\<rparr>))))
       = 2"
proof -
  have h1: "tasksKeyed exampleDb" by code_simp
  have m: "tagMatchMode pagedOptions = ''any''" by code_simp
  have h2: "tagNamesToFilter pagedOptions = [] \<or> tagMatchMode pagedOptions = ''all''
            \<or> tagMatchMode pagedOptions = ''any''"
    using m by simp
  have l: "opt_limit pagedOptions = Some 1" by (simp add: pagedOptions_def)
  have h3: "\<forall>l. opt_limit pagedOptions = Some l \<longrightarrow> 0 \<le> l" using l by simp
  have tp: "totalPages (getAllTasks exampleDb 2 pagedOptions) = 2" by code_simp
  have tt: "total (getAllTasks exampleDb 2 pagedOptions) = 2" by code_simp
  have up: "[1..2::int] = [1, 2]" by code_simp
  have "int (length (tasks (getAllTasks exampleDb 2 (pagedOptions\<lparr>opt_page := Some 1\<rparr>))))
       + int (length (tasks (getAllTasks exampleDb 2 (pagedOptions\<lparr>opt_page := Some 2\<rparr>))))
       = 2"
    using getAllTasks_count_consistent [OF h1 h2 h3, of 2] by (simp add: tp tt up)
  then show ?thesis using h1 m l tp tt by simp
qed

subsection \<open>The match mode \<open>all\<close> on a list with a repeated name\<close>

lemma countDistinctNames_bound:
  assumes "\<forall>r \<in> set rows. whereTag names (snd r)"
  shows "countDistinctNames rows \<le> card (set names)"
proof -
  have "set (map (\<lambda>r. sql_lower (tag_name (snd r))) rows) \<subseteq> sql_lower ` set names"
    using assms by (auto simp: whereTag_def)
  then have "card (set (map (\<lambda>r. sql_lower (tag_name (snd r))) rows)) \<le> card (sql_lower ` set names)"
    by (intro card_mono) simp_all
  also have "\<dots> \<le> card (set names)" by (intro card_image_le) simp
  finally show ?thesis by (simp add: countDistinctNames_def length_remdups_card_conv)
qed

lemma repeated_name_short: "\<not> distinct names \<Longrightarrow> card (set names) < length names"
  using card_length [of names] distinct_card [of names] card_distinct [of names]
  by (cases "card (set names) = length names") auto

lemma group_never_complete:
  assumes "\<not> distinct (tagNamesToFilter opts)"
  shows "countDistinctNames (filter P (joinedRows d uid opts)) \<noteq> length (tagNamesToFilter opts)"
proof -
  have "\<forall>r \<in> set (filter P (joinedRows d uid opts)). whereTag (tagNamesToFilter opts) (snd r)"
    by (simp add: joinedRows_def)
  then have "countDistinctNames (filter P (joinedRows d uid opts)) \<le> card (set (tagNamesToFilter opts))"
    by (rule countDistinctNames_bound)
  then show ?thesis using repeated_name_short [OF assms] by simp
qed

text \<open>
  With a name twice in the request the required count is never reached: the mode \<open>all\<close>
  returns no task and the total 0, whatever the tasks carry.
\<close>

lemma all_mode_repeated_name:
  assumes "\<not> distinct (tagNamesToFilter opts)" and "tagMatchMode opts = ''all''"
  shows "tasks (getAllTasks d uid opts) = [] \<and> total (getAllTasks d uid opts) = 0"
proof -
  have ne: "tagNamesToFilter opts \<noteq> []" using assms(1) by auto
  have sel: "selectTasks d uid opts = []"
    using ne assms(2) group_never_complete [OF assms(1)]
    by (simp add: selectTasks_def Let_def)
  have cnt: "countTasks d uid opts = 0"
    using ne assms(2) group_never_complete [OF assms(1)]
    by (simp add: countTasks_def Let_def)
  have "length (pageQuery d uid opts) = 0" by (simp add: length_pageQuery sel)
  then have "pageQuery d uid opts = []" by simp
  then show ?thesis using cnt by (simp add: getAllTasks_def Let_def limitOffset_def)
qed

text \<open>
  Claim C1, at an input where the code departs from it.  User 1 of the example has two
  tasks tagged \<open>a\<close>.  The request \<open>tags=a\<close> in the mode \<open>all\<close> returns both with the
  total 2; the request \<open>tags=a,a\<close>, whose canonical set is the same, returns nothing with
  the total 0, because the required count is the length 2 of the list as given.
\<close>

theorem getAllTasks_all_repeated_name:
  "tagNamesToFilter (noOptions\<lparr>opt_tags := Some ''a''\<rparr>) = [''a'']
   \<and> map tid (tasks (getAllTasks exampleDb 1 (noOptions\<lparr>opt_tags := Some ''a''\<rparr>))) = [2, 1]
   \<and> total (getAllTasks exampleDb 1 (noOptions\<lparr>opt_tags := Some ''a''\<rparr>)) = 2
   \<and> tagNamesToFilter (noOptions\<lparr>opt_tags := Some ''a,a''\<rparr>) = [''a'', ''a'']
   \<and> tagMatchMode (noOptions\<lparr>opt_tags := Some ''a,a''\<rparr>) = ''all''
   \<and> tasks (getAllTasks exampleDb 1 (noOptions\<lparr>opt_tags := Some ''a,a''\<rparr>)) = []
   \<and> total (getAllTasks exampleDb 1 (noOptions\<lparr>opt_tags := Some ''a,a''\<rparr>)) = 0"
  by code_simp

subsection \<open>The options the rows do not depend on\<close>

lemma mode_irrelevant_filters:
  "tagNamesToFilter (opts\<lparr>opt_tagMatchMode := m\<rparr>) = tagNamesToFilter opts"
  "whereTask uid (opts\<lparr>opt_tagMatchMode := m\<rparr>) = whereTask uid opts"
  "applySort (opts\<lparr>opt_tagMatchMode := m\<rparr>) = applySort opts"
  by (simp_all add: tagNamesToFilter_def whereTask_def applySort_def fun_eq_iff)

lemma mode_irrelevant_rows:
  "joinedRows d uid (opts\<lparr>opt_tagMatchMode := m\<rparr>) = joinedRows d uid opts"
  by (simp add: joinedRows_def mode_irrelevant_filters)

lemma getAllTasks_same_mode:
  assumes "tagMatchMode (opts\<lparr>opt_tagMatchMode := m\<rparr>) = tagMatchMode opts"
  shows "getAllTasks d uid (opts\<lparr>opt_tagMatchMode := m\<rparr>) = getAllTasks d uid opts"
  using assms
  by (simp add: getAllTasks_def pageQuery_def selectTasks_def countTasks_def
      mode_irrelevant_filters mode_irrelevant_rows Let_def)

lemma tagMatchMode_absent:
  assumes "opt_tagMatchMode opts = None \<or> opt_tagMatchMode opts = Some []"
  shows "tagMatchMode (opts\<lparr>opt_tagMatchMode := Some ''all''\<rparr>) = tagMatchMode opts"
  using assms by (auto simp: tagMatchMode_def)

lemma trim_all: "trim ''all'' = ''all''"
  by code_simp

lemma validate_mode_absent:
  assumes "opt_tagMatchMode opts = None"
  shows "queryErrors (opts\<lparr>opt_tagMatchMode := Some ''all''\<rparr>) = queryErrors opts"
  using assms by (simp add: queryErrors_def validTagMatchMode_def trim_all)

lemma listTasks_rejects:
  "queryErrors opts \<noteq> [] \<Longrightarrow> listTasks d uid opts = Inl (ValidationError (queryErrors opts))"
  by (simp add: listTasks_def validateGetTasksQuery_def)

text \<open>
  Claim C3, as the code has it.  Without the option \<open>tagMatchMode\<close> (or with the empty
  string) \<open>getAllTasks\<close> returns what it returns for \<open>all\<close>, and so does the route.  A
  value that is there and is neither \<open>all\<close> nor \<open>any\<close> once trimmed does not default:
  the validation of the route rejects the request.
\<close>

theorem tagMatchMode_absent_is_all:
  "(opt_tagMatchMode opts = None \<or> opt_tagMatchMode opts = Some [] \<longrightarrow>
      getAllTasks d uid opts = getAllTasks d uid (opts\<lparr>opt_tagMatchMode := Some ''all''\<rparr>))
   \<and> (opt_tagMatchMode opts = None \<longrightarrow>
        listTasks d uid opts = listTasks d uid (opts\<lparr>opt_tagMatchMode := Some ''all''\<rparr>))
   \<and> (\<forall>m. opt_tagMatchMode opts = Some m \<and> \<not> validTagMatchMode m \<longrightarrow>
        listTasks d uid opts = Inl (ValidationError (queryErrors opts))
        \<and> ''tagMatchMode'' \<in> set (queryErrors opts))"
proof (intro conjI impI allI)
  assume a: "opt_tagMatchMode opts = None \<or> opt_tagMatchMode opts = Some []"
  show "getAllTasks d uid opts = getAllTasks d uid (opts\<lparr>opt_tagMatchMode := Some ''all''\<rparr>)"
    using getAllTasks_same_mode [OF tagMatchMode_absent [OF a], of d uid] by simp
next
  assume a: "opt_tagMatchMode opts = None"
  then have same: "getAllTasks d uid (opts\<lparr>opt_tagMatchMode := Some ''all''\<rparr>) = getAllTasks d uid opts"
    using getAllTasks_same_mode [OF tagMatchMode_absent, of opts d uid] by simp
  show "listTasks d uid opts = listTasks d uid (opts\<lparr>opt_tagMatchMode := Some ''all''\<rparr>)"
  proof (cases "queryErrors opts = []")
    case True
    have rec: "opts\<lparr>opt_tags := map_option trim (opt_tags opts), opt_tagMatchMode := None\<rparr>
                 = opts\<lparr>opt_tags := map_option trim (opt_tags opts)\<rparr>"
      using a by (cases opts) simp
    have l: "listTasks d uid opts = Inr (getAllTasks d uid (opts\<lparr>opt_tags := map_option trim (opt_tags opts)\<rparr>))"
      using True a by (simp add: listTasks_def validateGetTasksQuery_def rec)
    let ?o = "opts\<lparr>opt_tags := map_option trim (opt_tags opts)\<rparr>"
    have "opt_tagMatchMode ?o = None" using a by simp
    then have "getAllTasks d uid (?o\<lparr>opt_tagMatchMode := Some ''all''\<rparr>) = getAllTasks d uid ?o"
      using getAllTasks_same_mode [OF tagMatchMode_absent, of ?o d uid] by simp
    moreover have "listTasks d uid (opts\<lparr>opt_tagMatchMode := Some ''all''\<rparr>)
                     = Inr (getAllTasks d uid (?o\<lparr>opt_tagMatchMode := Some ''all''\<rparr>))"
      using True validate_mode_absent [OF a]
      by (simp add: listTasks_def validateGetTasksQuery_def trim_all)
    ultimately show ?thesis using l by simp
  next
    case False
    then show ?thesis using validate_mode_absent [OF a] by (simp add: listTasks_rejects)
  qed
next
  fix m assume a: "opt_tagMatchMode opts = Some m \<and> \<not> validTagMatchMode m"
  then have mem: "''tagMatchMode'' \<in> set (queryErrors opts)" by (simp add: queryErrors_def)
  then have "queryErrors opts \<noteq> []" by auto
  then show "listTasks d uid opts = Inl (ValidationError (queryErrors opts))"
    by (rule listTasks_rejects)
  show "''tagMatchMode'' \<in> set (queryErrors opts)" by (rule mem)
qed

theorem tagMatchMode_absent_is_all_witness:
  "opt_tagMatchMode tagOptions = None
   \<and> getAllTasks exampleDb 1 tagOptions
       = getAllTasks exampleDb 1 (tagOptions\<lparr>opt_tagMatchMode := Some ''all''\<rparr>)
   \<and> listTasks exampleDb 1 tagOptions
       = listTasks exampleDb 1 (tagOptions\<lparr>opt_tagMatchMode := Some ''all''\<rparr>)
   \<and> map tid (tasks (getAllTasks exampleDb 1 tagOptions)) = [1]
   \<and> opt_tagMatchMode (tagOptions\<lparr>opt_tagMatchMode := Some ''every''\<rparr>) = Some ''every''
   \<and> \<not> validTagMatchMode ''every''
   \<and> listTasks exampleDb 1 (tagOptions\<lparr>opt_tagMatchMode := Some ''every''\<rparr>)
       = Inl (ValidationError [''tagMatchMode''])"
proof -
  have h1: "opt_tagMatchMode tagOptions = None" by (simp add: tagOptions_def noOptions_def)
  have h2: "opt_tagMatchMode (tagOptions\<lparr>opt_tagMatchMode := Some ''every''\<rparr>) = Some ''every''"
    by simp
  have h3: "\<not> validTagMatchMode ''every''" by code_simp
  have e: "queryErrors (tagOptions\<lparr>opt_tagMatchMode := Some ''every''\<rparr>) = [''tagMatchMode'']"
    by code_simp
  have v: "map tid (tasks (getAllTasks exampleDb 1 tagOptions)) = [1]" by code_simp
  have a: "getAllTasks exampleDb 1 tagOptions
             = getAllTasks exampleDb 1 (tagOptions\<lparr>opt_tagMatchMode := Some ''all''\<rparr>)"
    and b: "listTasks exampleDb 1 tagOptions
             = listTasks exampleDb 1 (tagOptions\<lparr>opt_tagMatchMode := Some ''all''\<rparr>)"
    using tagMatchMode_absent_is_all [of tagOptions exampleDb 1] h1 by simp_all
  have c: "listTasks exampleDb 1 (tagOptions\<lparr>opt_tagMatchMode := Some ''every''\<rparr>)
             = Inl (ValidationError [''tagMatchMode''])"
    using tagMatchMode_absent_is_all [of "tagOptions\<lparr>opt_tagMatchMode := Some ''every''\<rparr>" exampleDb 1]
      h3 e by simp
  show ?thesis using h1 h2 h3 v a b c by simp
qed

text \<open>
  The claim C3 as stated has every value other than \<open>all\<close> and \<open>any\<close> behave as
  \<open>all\<close>.  For the tags \<open>a,b\<close> and the mode \<open>every\<close> the service returns the tasks
  that have either tag, with a total that counts a task once for each tag that matched,
  where \<open>all\<close> returns task 1 alone; and the route rejects the request.
\<close>

theorem tagMatchMode_invalid_counterexample:
  "map tid (tasks (getAllTasks exampleDb 1 (tagOptions\<lparr>opt_tagMatchMode := Some ''every''\<rparr>))) = [2, 1]
   \<and> total (getAllTasks exampleDb 1 (tagOptions\<lparr>opt_tagMatchMode := Some ''every''\<rparr>)) = 3
   \<and> map tid (tasks (getAllTasks exampleDb 1 (tagOptions\<lparr>opt_tagMatchMode := Some ''all''\<rparr>))) = [1]
   \<and> total (getAllTasks exampleDb 1 (tagOptions\<lparr>opt_tagMatchMode := Some ''all''\<rparr>)) = 1
   \<and> getAllTasks exampleDb 1 (tagOptions\<lparr>opt_tagMatchMode := Some ''every''\<rparr>)
       \<noteq> getAllTasks exampleDb 1 (tagOptions\<lparr>opt_tagMatchMode := Some ''all''\<rparr>)
   \<and> isl (listTasks exampleDb 1 (tagOptions\<lparr>opt_tagMatchMode := Some ''every''\<rparr>))"
proof -
  have a: "total (getAllTasks exampleDb 1 (tagOptions\<lparr>opt_tagMatchMode := Some ''every''\<rparr>)) = 3"
    by code_simp
  have b: "total (getAllTasks exampleDb 1 (tagOptions\<lparr>opt_tagMatchMode := Some ''all''\<rparr>)) = 1"
    by code_simp
  have c: "map tid (tasks (getAllTasks exampleDb 1 (tagOptions\<lparr>opt_tagMatchMode := Some ''every''\<rparr>))) = [2, 1]"
    by code_simp
  have d: "map tid (tasks (getAllTasks exampleDb 1 (tagOptions\<lparr>opt_tagMatchMode := Some ''all''\<rparr>))) = [1]"
    by code_simp
  have e: "isl (listTasks exampleDb 1 (tagOptions\<lparr>opt_tagMatchMode := Some ''every''\<rparr>))"
    by code_simp
  have "getAllTasks exampleDb 1 (tagOptions\<lparr>opt_tagMatchMode := Some ''every''\<rparr>)
       \<noteq> getAllTasks exampleDb 1 (tagOptions\<lparr>opt_tagMatchMode := Some ''all''\<rparr>)"
    using a b by auto
  then show ?thesis using a b c d e by simp
qed

subsection \<open>An unrecognized sort field\<close>

lemma sort_irrelevant_filters:
  "tagNamesToFilter (opts\<lparr>opt_sortBy := x\<rparr>) = tagNamesToFilter opts"
  "tagMatchMode (opts\<lparr>opt_sortBy := x\<rparr>) = tagMatchMode opts"
  "whereTask uid (opts\<lparr>opt_sortBy := x\<rparr>) = whereTask uid opts"
  by (simp_all add: tagNamesToFilter_def tagMatchMode_def whereTask_def fun_eq_iff)

lemma sort_irrelevant_rows:
  "joinedRows d uid (opts\<lparr>opt_sortBy := x\<rparr>) = joinedRows d uid opts"
  by (simp add: joinedRows_def sort_irrelevant_filters)

lemma sort_irrelevant:
  "countTasks d uid (opts\<lparr>opt_sortBy := x\<rparr>) = countTasks d uid opts"
  "selectTasks d uid (opts\<lparr>opt_sortBy := x\<rparr>) = selectTasks d uid opts"
  by (simp_all add: countTasks_def selectTasks_def sort_irrelevant_filters sort_irrelevant_rows
      Let_def)

lemma set_applySort: "set (applySort opts xs) = set xs"
  by (simp add: applySort_def orderByField_def set_orderBy split: option.split)

lemma toUpperCaseChar_underscore: "toUpperCaseChar c = CHR ''_'' \<longleftrightarrow> c = CHR ''_''"
proof
  assume "c = CHR ''_''"
  then show "toUpperCaseChar c = CHR ''_''" by (simp add: toUpperCaseChar_def)
next
  assume a: "toUpperCaseChar c = CHR ''_''"
  have n: "(of_char (CHR ''_'') :: nat) = 95" by simp
  show "c = CHR ''_''"
  proof (cases "(97 \<le> (of_char c :: nat) \<and> (of_char c :: nat) \<le> 122)
                \<or> (224 \<le> (of_char c :: nat) \<and> (of_char c :: nat) \<le> 254 \<and> (of_char c :: nat) \<noteq> 247)")
    case True
    then have "toUpperCaseChar c = char_of ((of_char c :: nat) - 32)"
      by (simp add: toUpperCaseChar_def Let_def)
    then have "(of_char (char_of ((of_char c :: nat) - 32)) :: nat) = 95" using a n by simp
    then have "((of_char c :: nat) - 32) mod 256 = 95" by simp
    then show ?thesis using True by auto
  next
    case False
    then have "toUpperCaseChar c = c"
      unfolding toUpperCaseChar_def Let_def by (simp only: if_False)
    then show ?thesis using a by simp
  qed
qed

lemma split_map:
  assumes "\<And>c. f c = sep \<longleftrightarrow> c = sep"
  shows "split sep (map f s) = map (map f) (split sep s)"
proof (induction s)
  case Nil
  show ?case by simp
next
  case (Cons c cs)
  show ?case
  proof (cases "c = sep")
    case True
    then show ?thesis using Cons.IH assms by simp
  next
    case False
    then have "f c \<noteq> sep" using assms by simp
    then show ?thesis using False Cons.IH by (simp split: list.splits)
  qed
qed

lemma sortField_toUpperCase: "sortField (toUpperCase s) = toUpperCase (sortField s)"
proof -
  have "split CHR ''_'' (map toUpperCaseChar s) = map (map toUpperCaseChar) (split CHR ''_'' s)"
    by (rule split_map) (rule toUpperCaseChar_underscore)
  then show ?thesis by (simp add: sortField_def toUpperCase_def split: list.splits)
qed

lemma pattern_fields:
  "list_all (\<lambda>p. sortField (toUpperCase p) \<in> set (map toUpperCase allowedFields)) sortByPatterns"
  by code_simp

text \<open>
  A \<open>sortBy\<close> that the validation accepts has one of the four fields, up to the case of
  its letters, before the first underscore.
\<close>

lemma validSortBy_field:
  assumes "validSortBy s"
  shows "toUpperCase (sortField s) \<in> set (map toUpperCase allowedFields)"
proof -
  obtain p where p: "p \<in> set sortByPatterns" and eq: "toUpperCase s = toUpperCase p"
    using assms by (auto simp: validSortBy_def)
  have "sortField (toUpperCase p) \<in> set (map toUpperCase allowedFields)"
    using pattern_fields p by (simp add: list_all_iff)
  then show ?thesis using eq sortField_toUpperCase [of s] by simp
qed

subsection \<open>The default order\<close>

lemma sorted_wrt_insertBy:
  assumes total: "\<And>a b. le a b \<or> le b a" and trans: "\<And>a b c. le a b \<Longrightarrow> le b c \<Longrightarrow> le a c"
    and "sorted_wrt le xs"
  shows "sorted_wrt le (insertBy le x xs)"
  using assms(3)
proof (induction xs)
  case Nil
  show ?case by simp
next
  case (Cons y ys)
  show ?case
  proof (cases "le x y")
    case True
    have "\<forall>z \<in> set ys. le x z" using True Cons.prems trans by auto
    then show ?thesis using True Cons.prems by simp
  next
    case False
    then have "le y x" using total [of x y] by simp
    moreover have "sorted_wrt le (insertBy le x ys)" using Cons.IH Cons.prems by simp
    ultimately show ?thesis using False Cons.prems by (simp add: set_insertBy)
  qed
qed

lemma sorted_wrt_orderBy:
  assumes "\<And>a b. le a b \<or> le b a" and "\<And>a b c. le a b \<Longrightarrow> le b c \<Longrightarrow> le a c"
  shows "sorted_wrt le (orderBy le xs)"
proof (induction xs)
  case Nil
  show ?case by (simp add: orderBy_def)
next
  case (Cons x xs)
  have "sorted_wrt le (insertBy le x (orderBy le xs))"
    using assms Cons.IH by (rule sorted_wrt_insertBy)
  then show ?case by (simp add: orderBy_def)
qed

lemma default_order:
  assumes "opt_sortBy opts = None"
  shows "sorted_wrt (\<lambda>a b. createdAt b \<le> createdAt a) (pageQuery d uid opts)"
proof -
  have "sorted_wrt (\<lambda>a b. createdAt b \<le> createdAt a)
          (orderBy (\<lambda>a b. createdAt b \<le> createdAt a) (selectTasks d uid opts))"
    by (rule sorted_wrt_orderBy) auto
  then show ?thesis using assms
    by (simp add: pageQuery_def applySort_def orderByField_def fieldLe_def)
qed

text \<open>
  Claim C8, as the code has it.  A request with no \<open>sortBy\<close> is ordered by
  \<open>createdAt\<close>, latest first.  A request whose sort field is none of the four names,
  in whatever case its letters are written, does not fall back to that order: the
  validation of the route rejects it with the key \<open>sortBy\<close>.
\<close>

theorem unrecognized_sort_field_rejected:
  assumes "opt_sortBy opts = Some s"
    and "toUpperCase (sortField s) \<notin> set (map toUpperCase allowedFields)"
  shows "\<not> validSortBy s
         \<and> ''sortBy'' \<in> set (queryErrors opts)
         \<and> listTasks d uid opts = Inl (ValidationError (queryErrors opts))
         \<and> sorted_wrt (\<lambda>a b. createdAt b \<le> createdAt a)
             (pageQuery d uid (opts\<lparr>opt_sortBy := None\<rparr>))"
proof -
  have inv: "\<not> validSortBy s" using assms(2) validSortBy_field by blast
  then have mem: "''sortBy'' \<in> set (queryErrors opts)"
    using assms(1) by (simp add: queryErrors_def)
  then have "queryErrors opts \<noteq> []" by auto
  then have rej: "listTasks d uid opts = Inl (ValidationError (queryErrors opts))"
    by (rule listTasks_rejects)
  have "opt_sortBy (opts\<lparr>opt_sortBy := None\<rparr>) = None" by simp
  then have "sorted_wrt (\<lambda>a b. createdAt b \<le> createdAt a)
               (pageQuery d uid (opts\<lparr>opt_sortBy := None\<rparr>))"
    by (rule default_order)
  then show ?thesis using inv mem rej by simp
qed

theorem unrecognized_sort_field_rejected_witness:
  "opt_sortBy prioritySort = Some ''priority_ASC''
   \<and> toUpperCase (sortField ''priority_ASC'') \<notin> set (map toUpperCase allowedFields)
   \<and> \<not> validSortBy ''priority_ASC''
   \<and> listTasks exampleDb 1 prioritySort = Inl (ValidationError [''sortBy''])
   \<and> map createdAt (pageQuery exampleDb 1 (prioritySort\<lparr>opt_sortBy := None\<rparr>)) = [200, 100]"
proof -
  have h1: "opt_sortBy prioritySort = Some ''priority_ASC''"
    by (simp add: prioritySort_def noOptions_def)
  have h2: "toUpperCase (sortField ''priority_ASC'') \<notin> set (map toUpperCase allowedFields)"
    by code_simp
  have e: "queryErrors prioritySort = [''sortBy'']" by code_simp
  have v: "map createdAt (pageQuery exampleDb 1 (prioritySort\<lparr>opt_sortBy := None\<rparr>)) = [200, 100]"
    by code_simp
  note inst = unrecognized_sort_field_rejected [OF h1 h2, of exampleDb 1]
  have a: "\<not> validSortBy ''priority_ASC''" using inst by simp
  have b: "listTasks exampleDb 1 prioritySort = Inl (ValidationError [''sortBy''])"
    using inst e by simp
  show ?thesis using h1 h2 a b v by simp
qed

text \<open>
  The claim C8 as stated has the request never fail.  The field of \<open>sortBy=priority_ASC\<close>
  is none of the four, and the route answers the request with the validation error.
\<close>

theorem unrecognized_sort_field_counterexample:
  "opt_sortBy prioritySort = Some ''priority_ASC''
   \<and> sortField ''priority_ASC'' = ''priority''
   \<and> ''priority'' \<notin> set allowedFields
   \<and> listTasks exampleDb 1 prioritySort = Inl (ValidationError [''sortBy''])
   \<and> isl (listTasks exampleDb 1 prioritySort)"
  by code_simp

subsection \<open>The match mode \<open>all\<close> on a list without repetition\<close>

lemma tagNamesToFilter_lower: "n \<in> set (tagNamesToFilter opts) \<Longrightarrow> sql_lower n = n"
  by (auto simp: tagNamesToFilter_def sql_lower_toLowerCase split: option.splits if_splits)

lemma sql_lower_requested: "sql_lower ` set (tagNamesToFilter opts) = set (tagNamesToFilter opts)"
  using tagNamesToFilter_lower [of _ opts] by force

lemma card_inter_full:
  assumes "finite B"
  shows "card (A \<inter> B) = card B \<longleftrightarrow> B \<subseteq> A"
proof
  assume "card (A \<inter> B) = card B"
  moreover have "A \<inter> B \<subseteq> B" by simp
  ultimately have "A \<inter> B = B" using assms by (simp add: card_subset_eq)
  then show "B \<subseteq> A" by blast
next
  assume "B \<subseteq> A"
  then have "A \<inter> B = B" by blast
  then show "card (A \<inter> B) = card B" by simp
qed

lemma group_names:
  assumes "whereTask uid opts g"
  shows "set (map (\<lambda>r. sql_lower (tag_name (snd r)))
                (filter (\<lambda>r. fst r = g) (joinedRows d uid opts)))
           = (\<lambda>r. sql_lower (tag_name (snd r))) ` {r \<in> set (joinTaskTags d). fst r = g}
               \<inter> set (tagNamesToFilter opts)"
  using assms sql_lower_requested [of opts]
  by (auto simp: joinedRows_def whereTag_def)

text \<open>
  When no name is repeated in the request, the mode \<open>all\<close> selects exactly the tasks of
  the user (under the \<open>completed\<close> filter) whose attached names include every name
  requested.
\<close>

lemma all_mode_superset:
  assumes dist: "distinct (tagNamesToFilter opts)" and ne: "tagNamesToFilter opts \<noteq> []"
    and mode: "tagMatchMode opts = ''all''"
  shows "g \<in> set (selectTasks d uid opts) \<longleftrightarrow>
           g \<in> set (tasks_tbl d) \<and> whereTask uid opts g
           \<and> set (tagNamesToFilter opts)
               \<subseteq> (\<lambda>r. sql_lower (tag_name (snd r))) ` {r \<in> set (joinTaskTags d). fst r = g}"
proof -
  let ?names = "tagNamesToFilter opts"
  let ?rows = "joinedRows d uid opts"
  let ?att = "(\<lambda>r. sql_lower (tag_name (snd r))) ` {r \<in> set (joinTaskTags d). fst r = g}"
  have sel: "g \<in> set (selectTasks d uid opts) \<longleftrightarrow>
               g \<in> fst ` set ?rows
               \<and> countDistinctNames (filter (\<lambda>r. fst r = g) ?rows) = length ?names"
    using ne mode by (simp add: selectTasks_def Let_def)
  have len: "length ?names = card (set ?names)" using dist by (simp add: distinct_card)
  show ?thesis
  proof (cases "whereTask uid opts g")
    case False
    then have "g \<notin> fst ` set ?rows" by (auto simp: joinedRows_def)
    then show ?thesis using sel False by simp
  next
    case True
    have cnt: "countDistinctNames (filter (\<lambda>r. fst r = g) ?rows) = card (?att \<inter> set ?names)"
      using group_names [OF True, of d]
      by (simp add: countDistinctNames_def length_remdups_card_conv)
    have full: "card (?att \<inter> set ?names) = card (set ?names) \<longleftrightarrow> set ?names \<subseteq> ?att"
      by (rule card_inter_full) simp
    have mem: "set ?names \<subseteq> ?att \<Longrightarrow> g \<in> fst ` set ?rows"
    proof -
      assume sub: "set ?names \<subseteq> ?att"
      obtain n where n: "n \<in> set ?names" using ne by (cases ?names) auto
      then have "n \<in> ?att" using sub by blast
      then obtain r where r: "r \<in> set (joinTaskTags d)" "fst r = g" "n = sql_lower (tag_name (snd r))"
        by auto
      have "whereTag ?names (snd r)"
        using n r(3) sql_lower_requested [of opts] by (simp add: whereTag_def)
      then have "r \<in> set ?rows" using r True by (simp add: joinedRows_def)
      then show ?thesis using r(2) by force
    qed
    have tbl: "g \<in> fst ` set ?rows \<Longrightarrow> g \<in> set (tasks_tbl d)"
      by (auto simp: joinedRows_def joinTaskTags_def)
    show ?thesis using sel cnt len full mem tbl True by auto
  qed
qed

subsection \<open>The case of the sort field\<close>

text \<open>
  The validation matches the sort field in either case; the service compares it as
  written.  \<open>TITLE_DESC\<close> passes the validation, and the service then adds no
  \<open>ORDER BY\<close> for it, where \<open>title_DESC\<close> sorts.
\<close>

lemma sort_field_case_example:
  "validSortBy ''TITLE_DESC''
   \<and> sortField ''TITLE_DESC'' \<notin> set allowedFields
   \<and> applySort (noOptions\<lparr>opt_sortBy := Some ''TITLE_DESC''\<rparr>) (tasks_tbl exampleDb)
       = tasks_tbl exampleDb
   \<and> map title (applySort (noOptions\<lparr>opt_sortBy := Some ''title_DESC''\<rparr>) (tasks_tbl exampleDb))
       = [''third'', ''second'', ''fourth'', ''first'']"
  by code_simp

end
